theory Spec2Isabelle
  imports Main "HOL-Library.Sublist"
begin

section \<open>Python strings\<close>

text \<open>
  The program is \<^verbatim>\<open>langchain5Q.py\<close>. Its text values are Python \<^verbatim>\<open>str\<close>; here a string
  is a list of \<^typ>\<open>char\<close>, each read as one code point from 0 to 255. On such text
  \<^verbatim>\<open>str.lower\<close> changes the letters A to Z and the capital letters from U+00C0 to
  U+00DE, and the characters \<^verbatim>\<open>str.strip\<close> and \<^verbatim>\<open>str.split()\<close> treat as whitespace are
  the code points 9 to 13, 28 to 32, U+0085 and U+00A0. A text with a code point
  above 255 is no value of the type. A text the program builds with
  \<^verbatim>\<open>str.capitalize\<close> can have such code points; it is a list of code points.
\<close>

type_synonym unicode = "nat list"

definition code_points :: "string \<Rightarrow> unicode" where
  "code_points s = map of_char s"

definition isspace :: "char \<Rightarrow> bool" where
  "isspace c =
     (let n = (of_char c :: nat)
      in (9 \<le> n \<and> n \<le> 13) \<or> (28 \<le> n \<and> n \<le> 32) \<or> n = 133 \<or> n = 160)"

definition lower_chr :: "char \<Rightarrow> char" where
  "lower_chr c =
     (let n = (of_char c :: nat)
      in if (65 \<le> n \<and> n \<le> 90) \<or> (192 \<le> n \<and> n \<le> 214) \<or> (216 \<le> n \<and> n \<le> 222)
         then char_of (n + 32) else c)"

text \<open>
  The title case of a character, which \<^verbatim>\<open>str.capitalize\<close> gives the first character:
  the capital letter of a small one; U+039C for the micro sign, \<^verbatim>\<open>Ss\<close> for the sharp s
  and U+0178 for U+00FF.
\<close>

definition titlecase :: "char \<Rightarrow> unicode" where
  "titlecase c =
     (let n = (of_char c :: nat)
      in if 97 \<le> n \<and> n \<le> 122 then [n - 32]
         else if n = 181 then [924]
         else if n = 223 then [83, 115]
         else if (224 \<le> n \<and> n \<le> 246) \<or> (248 \<le> n \<and> n \<le> 254) then [n - 32]
         else if n = 255 then [376]
         else [n])"

text \<open>\<^verbatim>\<open>s.lower()\<close>\<close>

definition lower :: "string \<Rightarrow> string" where
  "lower s = map lower_chr s"

text \<open>\<^verbatim>\<open>s.capitalize()\<close>: the first character in title case, the rest in lower case.\<close>

definition capitalize :: "string \<Rightarrow> unicode" where
  "capitalize s = (case s of [] \<Rightarrow> [] | c # cs \<Rightarrow> titlecase c @ code_points (lower cs))"

text \<open>\<^verbatim>\<open>s.strip()\<close>: leading and trailing whitespace removed.\<close>

definition strip :: "string \<Rightarrow> string" where
  "strip s = rev (dropWhile isspace (rev (dropWhile isspace s)))"

text \<open>\<^verbatim>\<open>sub in s\<close>: \<open>sub\<close> occurs in \<open>s\<close> as a contiguous substring.\<close>

fun contains :: "string \<Rightarrow> string \<Rightarrow> bool" where
  "contains sub [] = (sub = [])"
| "contains sub (c # cs) = (prefix sub (c # cs) \<or> contains sub cs)"

text \<open>
  \<^verbatim>\<open>s.split(sep)\<close> for a non-empty separator: the text is cut at the occurrences of
  \<open>sep\<close> found from left to right, each search starting behind the occurrence found
  before. The result is never empty. (Python raises \<^verbatim>\<open>ValueError\<close> for an empty
  separator; every separator of this program is a non-empty literal, and for
  \<open>sep = []\<close> the function below returns \<open>[s]\<close>.)
\<close>

fun split_on :: "string \<Rightarrow> string \<Rightarrow> string list" where
  "split_on sep [] = [[]]"
| "split_on sep (c # cs) =
     (if sep \<noteq> [] \<and> prefix sep (c # cs) then [] # split_on sep (drop (length sep - 1) cs)
      else (case split_on sep cs of [] \<Rightarrow> [[c]] | p # ps \<Rightarrow> (c # p) # ps))"

text \<open>
  \<^verbatim>\<open>s.split()\<close> with no argument: the maximal runs of non-whitespace characters, in
  order; empty for a string of whitespace only. The first argument is the run read so
  far, reversed.
\<close>

fun split_runs :: "string \<Rightarrow> string \<Rightarrow> string list" where
  "split_runs acc [] = (if acc = [] then [] else [rev acc])"
| "split_runs acc (c # cs) =
     (if isspace c then (if acc = [] then split_runs [] cs else rev acc # split_runs [] cs)
      else split_runs (c # acc) cs)"

definition split_whitespace :: "string \<Rightarrow> string list" where
  "split_whitespace s = split_runs [] s"

text \<open>\<^verbatim>\<open>sep.join(xs)\<close>\<close>

fun join :: "'a list \<Rightarrow> 'a list list \<Rightarrow> 'a list" where
  "join sep [] = []"
| "join sep [x] = x"
| "join sep (x # y # ys) = x @ sep @ join sep (y # ys)"

section \<open>Errors and indexing\<close>

text \<open>
  The exceptions of the program are values: \<open>IndexError\<close> of a list index out of
  range; \<open>ValueError\<close> of the database driver, which refuses a text parameter with
  a NUL character before it sends the statement; \<open>DataError\<close> and \<open>IntegrityError\<close>
  of a statement the database refuses; \<open>EndpointError\<close> of a failed call of the
  completion endpoint.
\<close>

datatype error = IndexError | ValueError | DataError | IntegrityError | EndpointError

text \<open>\<^verbatim>\<open>xs[0]\<close> and \<^verbatim>\<open>xs[-1]\<close>: both raise \<^verbatim>\<open>IndexError\<close> on the empty list.\<close>

definition first_item :: "'a list \<Rightarrow> error + 'a" where
  "first_item xs = (case xs of [] \<Rightarrow> Inl IndexError | x # _ \<Rightarrow> Inr x)"

definition last_item :: "'a list \<Rightarrow> error + 'a" where
  "last_item xs = (if xs = [] then Inl IndexError else Inr (last xs))"

section \<open>The database\<close>

text \<open>
  The two tables of \<^verbatim>\<open>create_tables\<close>. A table is the list of its rows as a \<^verbatim>\<open>SELECT\<close>
  without \<^verbatim>\<open>ORDER BY\<close> returns them: an inserted row comes last, and so does the new
  version of an updated row. The columns \<^verbatim>\<open>conversations.id\<close> and
  \<^verbatim>\<open>user_facts.updated_at\<close> are never read by the program and are left out;
  \<^verbatim>\<open>conversations.created_at\<close> is the time of the insertion, which does not decrease
  from one insertion to the next, so the order of the list is the order of
  \<^verbatim>\<open>created_at\<close>. Each \<^verbatim>\<open>id SERIAL\<close> column draws from its sequence, whose next value is
  part of the state; \<open>max_serial\<close> is the last value a sequence gives.
\<close>

record conversation =
  conv_session_id :: string
  conv_role :: string
  conv_content :: string

record user_fact =
  fact_id :: nat
  fact_session_id :: string
  fact_key :: string
  fact_value :: string

record db =
  conversations :: "conversation list"
  conversations_id_seq :: nat
  user_facts :: "user_fact list"
  user_facts_id_seq :: nat

definition max_serial :: nat where
  "max_serial = 2147483647"

text \<open>The database after \<^verbatim>\<open>create_tables\<close> on a server without the two tables.\<close>

definition fresh_db :: db where
  "fresh_db = \<lparr>conversations = [], conversations_id_seq = 1, user_facts = [], user_facts_id_seq = 1\<rparr>"

text \<open>
  A database of two sessions, for examples: two facts and six logged messages of the
  session of the program, one fact and one message of another session.
\<close>

definition example_db :: db where
  "example_db =
     \<lparr>conversations =
        [\<lparr>conv_session_id = ''default_session'', conv_role = ''user'', conv_content = ''Hi''\<rparr>,
         \<lparr>conv_session_id = ''default_session'', conv_role = ''assistant'', conv_content = ''Hello!''\<rparr>,
         \<lparr>conv_session_id = ''other'', conv_role = ''user'', conv_content = ''My name is Eve''\<rparr>,
         \<lparr>conv_session_id = ''default_session'', conv_role = ''user'', conv_content = ''What is the weather?''\<rparr>,
         \<lparr>conv_session_id = ''default_session'', conv_role = ''assistant'', conv_content = ''Sunny.''\<rparr>,
         \<lparr>conv_session_id = ''default_session'', conv_role = ''user'', conv_content = ''Thanks''\<rparr>,
         \<lparr>conv_session_id = ''default_session'', conv_role = ''assistant'', conv_content = ''Welcome.''\<rparr>],
      conversations_id_seq = 8,
      user_facts =
        [\<lparr>fact_id = 1, fact_session_id = ''default_session'', fact_key = ''location'', fact_value = ''Boston''\<rparr>,
         \<lparr>fact_id = 2, fact_session_id = ''default_session'', fact_key = ''name'', fact_value = ''Sam''\<rparr>,
         \<lparr>fact_id = 3, fact_session_id = ''other'', fact_key = ''name'', fact_value = ''Eve''\<rparr>],
      user_facts_id_seq = 4\<rparr>"

text \<open>A text parameter with a NUL character is refused by the driver.\<close>

definition has_nul :: "string \<Rightarrow> bool" where
  "has_nul s = (CHR 0x00 \<in> set s)"

text \<open>The log of one session, oldest message first.\<close>

definition session_log :: "string \<Rightarrow> db \<Rightarrow> conversation list" where
  "session_log session_id d = filter (\<lambda>r. conv_session_id r = session_id) (conversations d)"

text \<open>
  \<^verbatim>\<open>save_message\<close>: one row appended to \<^verbatim>\<open>conversations\<close>, unless the driver refuses a
  parameter or the sequence of the ids has run out.
\<close>

definition save_message :: "string \<Rightarrow> string \<Rightarrow> string \<Rightarrow> db \<Rightarrow> (error + unit) \<times> db" where
  "save_message session_id role content d =
     (if has_nul session_id \<or> has_nul role \<or> has_nul content then (Inl ValueError, d)
      else if max_serial < conversations_id_seq d then (Inl DataError, d)
      else
        (Inr (),
         d\<lparr>conversations := conversations d @
              [\<lparr>conv_session_id = session_id, conv_role = role, conv_content = content\<rparr>],
           conversations_id_seq := Suc (conversations_id_seq d)\<rparr>))"

text \<open>
  \<^verbatim>\<open>get_last_messages\<close>: the rows of the session, newest first, cut to \<open>limit\<close> rows
  (\<^verbatim>\<open>ORDER BY created_at DESC LIMIT :limit\<close>), then reversed. The database refuses a
  \<^verbatim>\<open>LIMIT\<close> that is negative or no 64-bit integer. Each returned dictionary has the
  keys \<^verbatim>\<open>role\<close> and \<^verbatim>\<open>content\<close>.
\<close>

record message_dict =
  role :: string
  content :: string

definition get_last_messages :: "string \<Rightarrow> int \<Rightarrow> db \<Rightarrow> error + message_dict list" where
  "get_last_messages session_id limit d =
     (if has_nul session_id then Inl ValueError
      else if limit < 0 \<or> 2 ^ 63 \<le> limit then Inl DataError
      else
        let rows = take (nat limit) (rev (filter (\<lambda>r. conv_session_id r = session_id) (conversations d)))
        in Inr (map (\<lambda>row. \<lparr>role = conv_role row, content = conv_content row\<rparr>) (rev rows)))"

text \<open>
  \<^verbatim>\<open>upsert_user_fact\<close>: \<^verbatim>\<open>fetchone\<close> gives the first row of the session with the key, if
  there is one; then the rows with that row's \<^verbatim>\<open>id\<close> get the new value, and their new
  versions come last in the table. Otherwise a new row is inserted with the next
  \<^verbatim>\<open>id\<close> of the sequence; the database refuses it when the sequence has run out, and
  when the table has that \<^verbatim>\<open>id\<close> already (the value of the sequence is used up all the
  same). The driver refuses a parameter with a NUL character; whichever statement
  meets it, nothing is written.
\<close>

definition upsert_user_fact :: "string \<Rightarrow> string \<Rightarrow> string \<Rightarrow> db \<Rightarrow> (error + unit) \<times> db" where
  "upsert_user_fact session_id key val d =
     (if has_nul session_id \<or> has_nul key \<or> has_nul val then (Inl ValueError, d)
      else
        (case filter (\<lambda>r. fact_session_id r = session_id \<and> fact_key r = key) (user_facts d) of
           existing # _ \<Rightarrow>
             (Inr (),
              d\<lparr>user_facts :=
                  filter (\<lambda>r. fact_id r \<noteq> fact_id existing) (user_facts d) @
                  map (\<lambda>r. r\<lparr>fact_value := val\<rparr>)
                    (filter (\<lambda>r. fact_id r = fact_id existing) (user_facts d))\<rparr>)
         | [] \<Rightarrow>
             if max_serial < user_facts_id_seq d then (Inl DataError, d)
             else if user_facts_id_seq d \<in> set (map fact_id (user_facts d))
             then (Inl IntegrityError, d\<lparr>user_facts_id_seq := Suc (user_facts_id_seq d)\<rparr>)
             else
               (Inr (),
                d\<lparr>user_facts := user_facts d @
                     [\<lparr>fact_id = user_facts_id_seq d, fact_session_id = session_id,
                       fact_key = key, fact_value = val\<rparr>],
                  user_facts_id_seq := Suc (user_facts_id_seq d)\<rparr>)))"

text \<open>
  A Python \<^verbatim>\<open>dict\<close> is the list of its items in the order of their first insertion;
  \<open>dict_set\<close> is \<^verbatim>\<open>d[k] = v\<close>: a key that is present keeps its place and gets the new
  value.
\<close>

fun dict_set :: "(string \<times> string) list \<Rightarrow> string \<Rightarrow> string \<Rightarrow> (string \<times> string) list" where
  "dict_set [] k v = [(k, v)]"
| "dict_set ((k', v') # kvs) k v = (if k' = k then (k', v) # kvs else (k', v') # dict_set kvs k v)"

text \<open>
  \<^verbatim>\<open>get_user_facts\<close>: the dictionary comprehension over the rows of the session, which
  is \<open>fact_dict\<close>.
\<close>

definition fact_dict :: "string \<Rightarrow> db \<Rightarrow> (string \<times> string) list" where
  "fact_dict session_id d =
     foldl (\<lambda>facts row. dict_set facts (fact_key row) (fact_value row)) []
       (filter (\<lambda>r. fact_session_id r = session_id) (user_facts d))"

definition get_user_facts :: "string \<Rightarrow> db \<Rightarrow> error + (string \<times> string) list" where
  "get_user_facts session_id d =
     (if has_nul session_id then Inl ValueError else Inr (fact_dict session_id d))"

section \<open>The fact extractor\<close>

text \<open>
  A step of the program takes the database and returns its outcome (\<open>Inl\<close> an
  exception) with the database it leaves behind: what was written before an exception
  stays.
\<close>

type_synonym step = "db \<Rightarrow> (error + unit) \<times> db"

definition skip :: step where
  "skip d = (Inr (), d)"

definition seq :: "step \<Rightarrow> step \<Rightarrow> step" where
  "seq f g d = (case f d of (Inl e, d') \<Rightarrow> (Inl e, d') | (Inr _, d') \<Rightarrow> g d')"

text \<open>
  \<^verbatim>\<open>upsert_user_fact(session_id, key, <expression>)\<close>: the expression is evaluated
  first, and an exception it raises leaves the database as it is.
\<close>

definition store_fact :: "string \<Rightarrow> string \<Rightarrow> error + string \<Rightarrow> step" where
  "store_fact session_id key v d =
     (case v of Inl e \<Rightarrow> (Inl e, d) | Inr x \<Rightarrow> upsert_user_fact session_id key x d)"

text \<open>\<^verbatim>\<open>user_input.split("my name is")[-1].strip().split()[0]\<close>\<close>

definition name_value :: "string \<Rightarrow> error + string" where
  "name_value user_input =
     (case last_item (split_on ''my name is'' user_input) of
        Inl e \<Rightarrow> Inl e
      | Inr t \<Rightarrow> first_item (split_whitespace (strip t)))"

text \<open>
  \<^verbatim>\<open>user_input.split(phrase)[-1].strip().split('.')[0]\<close>, the expression of the three
  other triggers.
\<close>

definition phrase_value :: "string \<Rightarrow> string \<Rightarrow> error + string" where
  "phrase_value phrase user_input =
     (case last_item (split_on phrase user_input) of
        Inl e \<Rightarrow> Inl e
      | Inr t \<Rightarrow> first_item (split_on ''.'' (strip t)))"

definition extract_and_store_facts :: "string \<Rightarrow> string \<Rightarrow> step" where
  "extract_and_store_facts session_id user_input =
     (let lower_input = lower user_input in
      seq (if contains ''my name is'' lower_input
           then store_fact session_id ''name'' (name_value user_input) else skip)
     (seq (if contains ''i am a'' lower_input
           then store_fact session_id ''profession'' (phrase_value ''i am a'' user_input) else skip)
     (seq (if contains ''i live in'' lower_input
           then store_fact session_id ''location'' (phrase_value ''i live in'' user_input) else skip)
          (if contains ''moved to'' lower_input
           then store_fact session_id ''location'' (phrase_value ''moved to'' user_input) else skip))))"

section \<open>The chat turn\<close>

text \<open>The content of a message is a list of code points.\<close>

datatype message = SystemMessage unicode | HumanMessage unicode | AIMessage unicode

definition SESSION_ID :: string where
  "SESSION_ID = ''default_session''"

text \<open>The system prompt of \<^verbatim>\<open>chat_with_memory\<close>, from the dictionary of facts.\<close>

definition system_prompt :: "(string \<times> string) list \<Rightarrow> unicode" where
  "system_prompt facts =
     (let facts_str =
            join (code_points '', '')
              (map (\<lambda>(k, v). capitalize k @ code_points '' = '' @ code_points v) facts)
      in if facts \<noteq> [] then code_points ''User facts: '' @ facts_str
         else code_points ''No known facts about the user.'')"

text \<open>The message appended for one dictionary of the history.\<close>

definition history_message :: "message_dict \<Rightarrow> message" where
  "history_message msg =
     (if role msg = ''user'' then HumanMessage (code_points (content msg))
      else AIMessage (code_points (content msg)))"

text \<open>
  \<^verbatim>\<open>chat_with_memory\<close>. The completion endpoint \<^verbatim>\<open>chat.invoke\<close> is a parameter: it
  gets the list of messages and returns the content of the response, or fails.
\<close>

definition chat_with_memory :: "(message list \<Rightarrow> error + string) \<Rightarrow> string \<Rightarrow> db \<Rightarrow> (error + string) \<times> db" where
  "chat_with_memory invoke user_input d =
     (case extract_and_store_facts SESSION_ID user_input d of
        (Inl e, d1) \<Rightarrow> (Inl e, d1)
      | (Inr _, d1) \<Rightarrow>
     (case save_message SESSION_ID ''user'' user_input d1 of
        (Inl e, d2) \<Rightarrow> (Inl e, d2)
      | (Inr _, d2) \<Rightarrow>
     (case get_user_facts SESSION_ID d2 of
        Inl e \<Rightarrow> (Inl e, d2)
      | Inr facts \<Rightarrow>
          (let messages = [SystemMessage (system_prompt facts)]
           in (case get_last_messages SESSION_ID 5 d2 of
                 Inl e \<Rightarrow> (Inl e, d2)
               | Inr history \<Rightarrow>
                   (let messages = messages @ map history_message history;
                        messages = messages @ [HumanMessage (code_points user_input)]
                    in (case invoke messages of
                          Inl e \<Rightarrow> (Inl e, d2)
                        | Inr response \<Rightarrow>
                            (case save_message SESSION_ID ''assistant'' response d2 of
                               (Inl e, d3) \<Rightarrow> (Inl e, d3)
                             | (Inr _, d3) \<Rightarrow> (Inr response, d3)))))))))"

section \<open>Invariants of the fact table\<close>

text \<open>
  At most one row for each pair of a session and a key. The table has no uniqueness
  constraint for it; \<^verbatim>\<open>upsert_user_fact\<close> keeps it by reading before it writes.
\<close>

definition one_row_per_key :: "db \<Rightarrow> bool" where
  "one_row_per_key d = distinct (map (\<lambda>r. (fact_session_id r, fact_key r)) (user_facts d))"

text \<open>\<^verbatim>\<open>id SERIAL PRIMARY KEY\<close>: the database keeps the ids of the rows distinct.\<close>

definition primary_key_ok :: "db \<Rightarrow> bool" where
  "primary_key_ok d = distinct (map fact_id (user_facts d))"

section \<open>The message list of the specification\<close>

text \<open>
  The list the specification describes (section 4.5, steps 3 to 5), for the database
  as it is after the user turn was appended. The system instruction names the facts
  the store returned as \<^verbatim>\<open>Key = Value\<close>, each key with its first character as a capital
  and the others small, with a comma and a space between two pairs; without a fact it
  is the fallback. Then come the five most recent rows of the session's log in
  chronological order, each as a message of its role, and the user's utterance last.
\<close>

definition spec_capitalized :: "string \<Rightarrow> unicode" where
  "spec_capitalized k =
     (if k = [] then [] else titlecase (hd k) @ map (\<lambda>c. of_char (lower_chr c)) (tl k))"

fun spec_pairs :: "(string \<times> string) list \<Rightarrow> unicode" where
  "spec_pairs [] = []"
| "spec_pairs ((k, v) # facts) =
     spec_capitalized k @ code_points '' = '' @ code_points v @
     (if facts = [] then [] else code_points '', '' @ spec_pairs facts)"

definition spec_messages :: "string \<Rightarrow> db \<Rightarrow> message list" where
  "spec_messages user_input d =
     (let facts = fact_dict SESSION_ID d;
          log = session_log SESSION_ID d
      in [SystemMessage
            (if facts = [] then code_points ''No known facts about the user.''
             else code_points ''User facts: '' @ spec_pairs facts)]
         @ map (\<lambda>row. if conv_role row = ''user'' then HumanMessage (code_points (conv_content row))
                       else AIMessage (code_points (conv_content row)))
             (drop (length log - 5) log)
         @ [HumanMessage (code_points user_input)])"

section \<open>Occurrences of a phrase\<close>

text \<open>
  The text behind the last occurrence of \<open>sep\<close> in a string; \<open>None\<close> when \<open>sep\<close> does
  not occur in it.
\<close>

fun after_last :: "string \<Rightarrow> string \<Rightarrow> string option" where
  "after_last sep [] = (if sep = [] then Some [] else None)"
| "after_last sep (c # cs) =
     (case after_last sep cs of
        Some t \<Rightarrow> Some t
      | None \<Rightarrow> if prefix sep (c # cs) then Some (drop (length sep) (c # cs)) else None)"

text \<open>
  No end of \<open>sep\<close>, other than the empty one and \<open>sep\<close> itself, is also a beginning of
  \<open>sep\<close>: two occurrences of such a phrase do not overlap.
\<close>

definition unbordered :: "string \<Rightarrow> bool" where
  "unbordered sep = list_all (\<lambda>w. w = [] \<or> w = sep \<or> \<not> prefix w sep) (suffixes sep)"

text \<open>
  The value of a trigger as the specification words it: the text behind the last
  occurrence of the phrase, up to and without its first period, then trimmed.
\<close>

definition spec_phrase_value :: "string \<Rightarrow> string \<Rightarrow> string option" where
  "spec_phrase_value phrase user_input =
     map_option (\<lambda>t. strip (takeWhile (\<lambda>c. c \<noteq> CHR ''.'') t)) (after_last phrase user_input)"

text \<open>The expression of the name trigger, when the trigger fires, does not raise.\<close>

definition name_returns :: "string \<Rightarrow> bool" where
  "name_returns user_input =
     (contains ''my name is'' (lower user_input) \<longrightarrow> \<not> isl (name_value user_input))"

section \<open>Splitting at a phrase\<close>

text \<open>
  The last piece of \<^verbatim>\<open>s.split(sep)\<close> is the whole of \<open>s\<close> when \<open>sep\<close> does not occur in
  it, and the text behind the last occurrence of \<open>sep\<close> when \<open>sep\<close> cannot overlap itself,
  as is the case for the four phrases of the extractor.
\<close>

lemma contains_sublist: "contains sub s = sublist sub s"
  by (induction s) (auto simp: sublist_Cons_right)

lemma after_last_None_iff: "after_last sep s = None \<longleftrightarrow> \<not> contains sep s"
  by (induction s) (auto split: option.splits)

lemma after_last_Some_iff:
  assumes "sep \<noteq> []"
  shows "after_last sep s = Some t \<longleftrightarrow>
         (\<exists>pre. s = pre @ sep @ t \<and> \<not> contains sep (tl (sep @ t)))"
proof
  show "after_last sep s = Some t \<Longrightarrow> \<exists>pre. s = pre @ sep @ t \<and> \<not> contains sep (tl (sep @ t))"
  proof (induction s)
    case Nil
    with assms show ?case by simp
  next
    case (Cons c cs)
    show ?case
    proof (cases "after_last sep cs")
      case None
      with Cons.prems have p: "prefix sep (c # cs)" and t: "t = drop (length sep) (c # cs)"
        by (auto split: if_splits)
      from p t have "c # cs = sep @ t"
        by (auto simp: prefix_def)
      moreover from this None have "\<not> contains sep (tl (sep @ t))"
        by (metis after_last_None_iff list.sel(3))
      ultimately show ?thesis
        by (metis append_Nil)
    next
      case (Some t')
      with Cons.prems have "t' = t" by simp
      with Some Cons.IH obtain pre where "cs = pre @ sep @ t" "\<not> contains sep (tl (sep @ t))"
        by blast
      then have "c # cs = (c # pre) @ sep @ t" by simp
      with \<open>\<not> contains sep (tl (sep @ t))\<close> show ?thesis by blast
    qed
  qed
next
  assume "\<exists>pre. s = pre @ sep @ t \<and> \<not> contains sep (tl (sep @ t))"
  then obtain pre where s: "s = pre @ sep @ t" and no: "\<not> contains sep (tl (sep @ t))"
    by blast
  from assms obtain x sep' where sep: "sep = x # sep'"
    by (cases sep) auto
  from no have "after_last sep (tl (sep @ t)) = None"
    by (simp add: after_last_None_iff)
  then have "after_last sep (sep @ t) = Some t"
    by (simp add: sep)
  then show "after_last sep s = Some t"
    unfolding s by (induction pre) simp_all
qed

lemma split_on_not_Nil: "split_on sep s \<noteq> []"
  by (induction sep s rule: split_on.induct) (auto split: list.splits)

lemma split_on_no_occurrence: "\<not> contains sep s \<Longrightarrow> split_on sep s = [s]"
  by (induction s) auto

lemma split_on_two_pieces:
  "contains sep s \<Longrightarrow> sep \<noteq> [] \<Longrightarrow> tl (split_on sep s) \<noteq> []"
  by (induction s) (auto simp: split_on_not_Nil split: list.splits)

lemma unbordered_no_overlap:
  assumes "unbordered sep" and "suffix w sep" and "w \<noteq> []" and "w \<noteq> sep"
  shows "\<not> prefix sep (w @ rest)"
proof
  assume p: "prefix sep (w @ rest)"
  from assms(2) have "length w \<le> length sep"
    by (rule suffix_length_le)
  with p have "prefix w sep"
    by (auto intro: prefix_length_prefix [of w "w @ rest" sep])
  moreover from assms have "\<not> prefix w sep"
    by (auto simp: unbordered_def list_all_iff)
  ultimately show False by contradiction
qed

lemma after_last_skip:
  assumes "unbordered sep"
  shows "suffix w sep \<Longrightarrow> w \<noteq> sep \<Longrightarrow> after_last sep (w @ rest) = after_last sep rest"
proof (induction w)
  case Nil
  then show ?case by simp
next
  case (Cons x w)
  from Cons.prems(1) have suf: "suffix w sep"
    by (rule suffix_ConsD)
  from Cons.prems(1) have "length (x # w) \<le> length sep"
    by (rule suffix_length_le)
  then have "w \<noteq> sep" by auto
  with suf Cons.IH have "after_last sep (w @ rest) = after_last sep rest"
    by simp
  moreover from assms Cons.prems have "\<not> prefix sep ((x # w) @ rest)"
    by (intro unbordered_no_overlap) simp_all
  ultimately show ?case
    by (simp split: option.split)
qed

lemma after_last_at_prefix:
  assumes "unbordered sep" and "sep \<noteq> []"
  shows "after_last sep (sep @ rest) =
         Some (case after_last sep rest of None \<Rightarrow> rest | Some t \<Rightarrow> t)"
proof -
  from assms(2) obtain x sep' where sep: "sep = x # sep'"
    by (cases sep) auto
  have "suffix sep' sep" "sep' \<noteq> sep"
    by (simp_all add: sep suffix_Cons)
  with assms(1) have "after_last sep (sep' @ rest) = after_last sep rest"
    by (rule after_last_skip)
  moreover have "sep @ rest = x # sep' @ rest" "prefix sep (x # sep' @ rest)"
    "drop (length sep) (x # sep' @ rest) = rest"
    by (simp_all add: sep)
  ultimately show ?thesis
    by (simp split: option.split)
qed

lemma last_split_on:
  "unbordered sep \<Longrightarrow> sep \<noteq> [] \<Longrightarrow>
   last (split_on sep s) = (case after_last sep s of None \<Rightarrow> s | Some t \<Rightarrow> t)"
proof (induction sep s rule: split_on.induct)
  case (1 sep)
  then show ?case by simp
next
  case (2 sep c cs)
  show ?case
  proof (cases "prefix sep (c # cs)")
    case True
    define rest where "rest = drop (length sep - 1) cs"
    from True "2.prems"(2) have eq: "c # cs = sep @ rest"
      by (cases sep) (auto simp: prefix_def rest_def)
    have "last (split_on sep rest) = (case after_last sep rest of None \<Rightarrow> rest | Some t \<Rightarrow> t)"
      unfolding rest_def using True "2.prems" by (intro "2.IH"(1)) simp_all
    moreover from True "2.prems"(2) have "last (split_on sep (c # cs)) = last (split_on sep rest)"
      by (simp add: rest_def split_on_not_Nil)
    moreover have "after_last sep (c # cs) =
        Some (case after_last sep rest of None \<Rightarrow> rest | Some t \<Rightarrow> t)"
      unfolding eq using "2.prems" by (rule after_last_at_prefix)
    ultimately show ?thesis
      by simp
  next
    case False
    with "2.prems" "2.IH"(2)
    have IH: "last (split_on sep cs) = (case after_last sep cs of None \<Rightarrow> cs | Some t \<Rightarrow> t)"
      by simp
    show ?thesis
    proof (cases "after_last sep cs")
      case None
      then have "split_on sep cs = [cs]"
        by (simp add: after_last_None_iff split_on_no_occurrence)
      with None False show ?thesis
        by simp
    next
      case (Some t)
      then have "contains sep cs"
        using after_last_None_iff [of sep cs] by simp
      with "2.prems"(2) have "tl (split_on sep cs) \<noteq> []"
        by (simp add: split_on_two_pieces)
      then obtain p q ps where "split_on sep cs = p # q # ps"
        by (cases "split_on sep cs") (auto simp: neq_Nil_conv)
      with IH Some False show ?thesis
        by simp
    qed
  qed
qed

lemma hd_split_on_char: "hd (split_on [c] t) = takeWhile (\<lambda>x. x \<noteq> c) t"
  by (induction t) (auto simp: split_on_not_Nil split: list.splits)

lemma phrase_value_eq:
  "phrase_value phrase user_input =
   Inr (takeWhile (\<lambda>c. c \<noteq> CHR ''.'') (strip (last (split_on phrase user_input))))"
proof -
  have "first_item (split_on ''.'' t) = Inr (takeWhile (\<lambda>c. c \<noteq> CHR ''.'') t)" for t
    using hd_split_on_char [of "CHR ''.''" t] split_on_not_Nil [of "''.''" t]
    by (cases "split_on ''.'' t") (simp_all add: first_item_def)
  then show ?thesis
    by (simp add: phrase_value_def last_item_def split_on_not_Nil)
qed

lemma lower_append: "lower (a @ b) = lower a @ lower b"
  by (simp add: lower_def)

lemma contains_lower:
  assumes "contains phrase user_input" and "lower phrase = phrase"
  shows "contains phrase (lower user_input)"
proof -
  from assms(1) obtain pre post where "user_input = pre @ phrase @ post"
    by (auto simp: contains_sublist sublist_def)
  then have "lower user_input = lower pre @ phrase @ lower post"
    by (simp add: lower_append assms(2))
  then show ?thesis
    by (auto simp: contains_sublist sublist_def)
qed

lemma phrases_lower:
  "lower ''my name is'' = ''my name is''" "lower ''i am a'' = ''i am a''"
  "lower ''i live in'' = ''i live in''" "lower ''moved to'' = ''moved to''"
  by code_simp+

lemma phrases_unbordered:
  "unbordered ''my name is''" "unbordered ''i am a''"
  "unbordered ''i live in''" "unbordered ''moved to''"
  by (simp_all add: unbordered_def)

section \<open>The fact store as a map\<close>

lemma map_of_dict_set: "map_of (dict_set kvs k v) = (map_of kvs)(k \<mapsto> v)"
  by (induction kvs k v rule: dict_set.induct) (auto simp: fun_eq_iff)

lemma map_of_foldl_dict_set:
  "map_of (foldl (\<lambda>facts row. dict_set facts (fact_key row) (fact_value row)) acc rows) =
   foldl (\<lambda>m row. m(fact_key row \<mapsto> fact_value row)) (map_of acc) rows"
  by (induction rows arbitrary: acc) (simp_all add: map_of_dict_set)

lemma foldl_upd_lookup:
  "foldl (\<lambda>m row. m(fact_key row \<mapsto> fact_value row)) m rows k =
   (case List.find (\<lambda>r. fact_key r = k) (rev rows) of None \<Rightarrow> m k | Some r \<Rightarrow> Some (fact_value r))"
  by (induction rows rule: rev_induct) simp_all

lemma fact_dict_lookup:
  "map_of (fact_dict s d) k =
   map_option fact_value
     (List.find (\<lambda>r. fact_session_id r = s \<and> fact_key r = k) (rev (user_facts d)))"
proof -
  have "List.find (\<lambda>r. fact_key r = k) (filter (\<lambda>r. fact_session_id r = s) rows) =
        List.find (\<lambda>r. fact_session_id r = s \<and> fact_key r = k) rows" for rows :: "user_fact list"
    by (induction rows) auto
  then have "List.find (\<lambda>r. fact_key r = k) (rev (filter (\<lambda>r. fact_session_id r = s) (user_facts d))) =
        List.find (\<lambda>r. fact_session_id r = s \<and> fact_key r = k) (rev (user_facts d))"
    by (simp add: rev_filter)
  then show ?thesis
    by (simp add: fact_dict_def map_of_foldl_dict_set foldl_upd_lookup split: option.split)
qed

lemma fact_dict_Some_iff:
  assumes "one_row_per_key d"
  shows "map_of (fact_dict s d) k = Some v \<longleftrightarrow>
         (\<exists>r \<in> set (user_facts d). fact_session_id r = s \<and> fact_key r = k \<and> fact_value r = v)"
proof
  assume "map_of (fact_dict s d) k = Some v"
  then obtain r where "List.find (\<lambda>r. fact_session_id r = s \<and> fact_key r = k) (rev (user_facts d)) = Some r"
    and "fact_value r = v"
    by (auto simp: fact_dict_lookup)
  then show "\<exists>r \<in> set (user_facts d). fact_session_id r = s \<and> fact_key r = k \<and> fact_value r = v"
    by (auto simp: find_Some_iff in_set_conv_nth) (metis length_rev nth_mem set_rev)
next
  assume "\<exists>r \<in> set (user_facts d). fact_session_id r = s \<and> fact_key r = k \<and> fact_value r = v"
  then obtain r where r: "r \<in> set (user_facts d)" "fact_session_id r = s" "fact_key r = k" "fact_value r = v"
    by blast
  then have "List.find (\<lambda>r. fact_session_id r = s \<and> fact_key r = k) (rev (user_facts d)) \<noteq> None"
    by (auto simp: find_None_iff)
  then obtain r' where f: "List.find (\<lambda>r. fact_session_id r = s \<and> fact_key r = k) (rev (user_facts d)) = Some r'"
    by blast
  then have r': "r' \<in> set (user_facts d)" "fact_session_id r' = s" "fact_key r' = k"
    by (auto simp: find_Some_iff) (metis length_rev nth_mem set_rev)
  from assms have "inj_on (\<lambda>r. (fact_session_id r, fact_key r)) (set (user_facts d))"
    by (simp add: one_row_per_key_def distinct_map)
  with r r' have "r' = r"
    by (auto dest: inj_onD)
  with f r show "map_of (fact_dict s d) k = Some v"
    by (simp add: fact_dict_lookup)
qed

lemma get_user_facts_returns: "\<not> has_nul s \<Longrightarrow> get_user_facts s d = Inr (fact_dict s d)"
  by (simp add: get_user_facts_def)

text \<open>What a call of \<^verbatim>\<open>upsert_user_fact\<close> that returns has done.\<close>

lemma upsert_returns:
  assumes "upsert_user_fact s k v d = (Inr (), d')"
  shows "\<not> has_nul s" and "\<not> has_nul k" and "\<not> has_nul v"
    and "conversations d' = conversations d"
    and "conversations_id_seq d' = conversations_id_seq d"
  using assms by (auto simp: upsert_user_fact_def split: if_splits list.splits)

lemma upsert_cases:
  assumes "upsert_user_fact s k v d = (Inr (), d')"
  obtains (inserted)
      "filter (\<lambda>r. fact_session_id r = s \<and> fact_key r = k) (user_facts d) = []"
      "user_facts d' = user_facts d @
         [\<lparr>fact_id = user_facts_id_seq d, fact_session_id = s, fact_key = k, fact_value = v\<rparr>]"
      "user_facts_id_seq d \<notin> set (map fact_id (user_facts d))"
  | (updated) e where
      "e \<in> set (user_facts d)" "fact_session_id e = s" "fact_key e = k"
      "user_facts d' =
         filter (\<lambda>r. fact_id r \<noteq> fact_id e) (user_facts d) @
         map (\<lambda>r. r\<lparr>fact_value := v\<rparr>) (filter (\<lambda>r. fact_id r = fact_id e) (user_facts d))"
proof (cases "filter (\<lambda>r. fact_session_id r = s \<and> fact_key r = k) (user_facts d)")
  case Nil
  with assms show ?thesis
    by (intro inserted) (auto simp: upsert_user_fact_def split: if_splits)
next
  case (Cons e es)
  then have "e \<in> set (filter (\<lambda>r. fact_session_id r = s \<and> fact_key r = k) (user_facts d))"
    by simp
  then have "e \<in> set (user_facts d)" "fact_session_id e = s" "fact_key e = k"
    by simp_all
  moreover from assms Cons have "user_facts d' =
         filter (\<lambda>r. fact_id r \<noteq> fact_id e) (user_facts d) @
         map (\<lambda>r. r\<lparr>fact_value := v\<rparr>) (filter (\<lambda>r. fact_id r = fact_id e) (user_facts d))"
    by (auto simp: upsert_user_fact_def split: if_splits)
  ultimately show ?thesis
    by (rule updated)
qed

lemma distinct_map_split:
  assumes "distinct (map f xs)"
  shows "distinct (map f (filter (\<lambda>x. \<not> P x) xs) @ map f (filter P xs))"
proof -
  from assms have "inj_on f (set xs)"
    by (simp add: distinct_map)
  then have "f x \<noteq> f y" if "x \<in> set xs" "y \<in> set xs" "\<not> P x" "P y" for x y
    using that by (auto dest: inj_onD)
  with assms show ?thesis
    by (auto simp: distinct_map_filter)
qed

lemma upsert_one_row_per_key:
  assumes "upsert_user_fact s k v d = (Inr (), d')" and "one_row_per_key d"
  shows "one_row_per_key d'"
  using assms(1)
proof (cases rule: upsert_cases)
  case inserted
  from inserted(1) have "\<forall>r \<in> set (user_facts d). \<not> (fact_session_id r = s \<and> fact_key r = k)"
    by (simp add: filter_empty_conv)
  with assms(2) show ?thesis
    by (auto simp: one_row_per_key_def inserted(2))
next
  case (updated e)
  from assms(2) show ?thesis
    unfolding one_row_per_key_def updated(4)
    using distinct_map_split [of "\<lambda>r. (fact_session_id r, fact_key r)" "user_facts d"
        "\<lambda>r. fact_id r = fact_id e"]
    by (simp add: o_def)
qed

lemma upsert_primary_key_ok:
  assumes "upsert_user_fact s k v d = (Inr (), d')" and "primary_key_ok d"
  shows "primary_key_ok d'"
  using assms(1)
proof (cases rule: upsert_cases)
  case inserted
  with assms(2) show ?thesis
    by (simp add: primary_key_ok_def)
next
  case (updated e)
  from assms(2) show ?thesis
    unfolding primary_key_ok_def updated(4)
    using distinct_map_split [of fact_id "user_facts d" "\<lambda>r. fact_id r = fact_id e"]
    by (simp add: o_def)
qed

lemma upsert_lookup_same:
  assumes "upsert_user_fact s k v d = (Inr (), d')" and "one_row_per_key d"
  shows "map_of (fact_dict s d') k = Some v"
proof -
  have "\<exists>r \<in> set (user_facts d'). fact_session_id r = s \<and> fact_key r = k \<and> fact_value r = v"
    using assms(1)
  proof (cases rule: upsert_cases)
    case inserted
    then show ?thesis by simp
  next
    case (updated e)
    then have "e\<lparr>fact_value := v\<rparr> \<in> set (user_facts d')"
      by simp
    with updated(2,3) show ?thesis
      by (intro bexI [of _ "e\<lparr>fact_value := v\<rparr>"]) simp_all
  qed
  with upsert_one_row_per_key [OF assms] show ?thesis
    by (simp add: fact_dict_Some_iff)
qed

lemma upsert_lookup_other:
  assumes "upsert_user_fact s k v d = (Inr (), d')"
    and "one_row_per_key d" and "primary_key_ok d" and "s' \<noteq> s \<or> k' \<noteq> k"
  shows "map_of (fact_dict s' d') k' = map_of (fact_dict s' d) k'"
proof -
  have "(\<exists>r \<in> set (user_facts d'). fact_session_id r = s' \<and> fact_key r = k' \<and> fact_value r = v') \<longleftrightarrow>
        (\<exists>r \<in> set (user_facts d). fact_session_id r = s' \<and> fact_key r = k' \<and> fact_value r = v')" for v'
    using assms(1)
  proof (cases rule: upsert_cases)
    case inserted
    with assms(4) show ?thesis
      by auto
  next
    case (updated e)
    from assms(3) have inj: "inj_on fact_id (set (user_facts d))"
      by (simp add: primary_key_ok_def distinct_map)
    have other: "fact_id r \<noteq> fact_id e"
      if "r \<in> set (user_facts d)" "fact_session_id r = s'" "fact_key r = k'" for r
    proof
      assume "fact_id r = fact_id e"
      with inj that(1) updated(1) have "r = e" by (auto dest: inj_onD)
      with that updated(2,3) assms(4) show False by auto
    qed
    show ?thesis
    proof
      assume "\<exists>r \<in> set (user_facts d'). fact_session_id r = s' \<and> fact_key r = k' \<and> fact_value r = v'"
      then obtain r where r: "r \<in> set (user_facts d')" "fact_session_id r = s'" "fact_key r = k'"
        "fact_value r = v'"
        by blast
      from r(1) consider "r \<in> set (user_facts d)" "fact_id r \<noteq> fact_id e"
        | r0 where "r0 \<in> set (user_facts d)" "fact_id r0 = fact_id e" "r = r0\<lparr>fact_value := v\<rparr>"
        unfolding updated(4) by auto
      then show "\<exists>r \<in> set (user_facts d). fact_session_id r = s' \<and> fact_key r = k' \<and> fact_value r = v'"
      proof cases
        case 1
        with r show ?thesis by blast
      next
        case 2
        with r other [of r0] show ?thesis by simp
      qed
    next
      assume "\<exists>r \<in> set (user_facts d). fact_session_id r = s' \<and> fact_key r = k' \<and> fact_value r = v'"
      then obtain r where r: "r \<in> set (user_facts d)" "fact_session_id r = s'" "fact_key r = k'"
        "fact_value r = v'"
        by blast
      with other [of r] have "r \<in> set (user_facts d')"
        unfolding updated(4) by simp
      with r show "\<exists>r \<in> set (user_facts d'). fact_session_id r = s' \<and> fact_key r = k' \<and> fact_value r = v'"
        by blast
    qed
  qed
  then have "map_of (fact_dict s' d') k' = Some v' \<longleftrightarrow> map_of (fact_dict s' d) k' = Some v'" for v'
    by (simp add: fact_dict_Some_iff assms(2) upsert_one_row_per_key [OF assms(1,2)])
  then show ?thesis
    by (cases "map_of (fact_dict s' d) k'") (auto intro: option.expand simp: not_Some_eq [symmetric] simp del: not_Some_eq)
qed

text \<open>
  \<^verbatim>\<open>upsert_user_fact\<close> returns unless a parameter holds a NUL character or the database
  refuses the insertion of a new row.
\<close>

lemma upsert_returns_iff:
  "(\<exists>d'. upsert_user_fact s k v d = (Inr (), d')) \<longleftrightarrow>
   \<not> has_nul s \<and> \<not> has_nul k \<and> \<not> has_nul v \<and>
   (filter (\<lambda>r. fact_session_id r = s \<and> fact_key r = k) (user_facts d) \<noteq> [] \<or>
    user_facts_id_seq d \<le> max_serial \<and> user_facts_id_seq d \<notin> set (map fact_id (user_facts d)))"
  by (auto simp: upsert_user_fact_def split: list.splits)

text \<open>
  C4, for a call that returns: with no other writer in between, when
  \<^verbatim>\<open>upsert_user_fact(session, key, value)\<close> returns without raising, \<^verbatim>\<open>get_user_facts(session)\<close>
  returns a dictionary in which the key has the value just written, and the table
  still has at most one row for each pair of a session and a key.
\<close>

theorem upsert_then_get_user_facts:
  assumes "one_row_per_key d"
    and "upsert_user_fact session_id key val d = (Inr (), d')"
  shows "\<exists>facts. get_user_facts session_id d' = Inr facts \<and> map_of facts key = Some val \<and>
           one_row_per_key d'"
  using assms upsert_returns(1) [OF assms(2)]
  by (simp add: get_user_facts_returns upsert_lookup_same upsert_one_row_per_key)

theorem upsert_then_get_user_facts_witness:
  "one_row_per_key
     \<lparr>conversations = [], conversations_id_seq = 1,
      user_facts =
        [\<lparr>fact_id = 1, fact_session_id = ''s'', fact_key = ''location'', fact_value = ''Boston''\<rparr>,
         \<lparr>fact_id = 2, fact_session_id = ''s'', fact_key = ''name'', fact_value = ''Sam''\<rparr>],
      user_facts_id_seq = 3\<rparr> \<and>
   upsert_user_fact ''s'' ''location'' ''Denver''
     \<lparr>conversations = [], conversations_id_seq = 1,
      user_facts =
        [\<lparr>fact_id = 1, fact_session_id = ''s'', fact_key = ''location'', fact_value = ''Boston''\<rparr>,
         \<lparr>fact_id = 2, fact_session_id = ''s'', fact_key = ''name'', fact_value = ''Sam''\<rparr>],
      user_facts_id_seq = 3\<rparr> =
   (Inr (),
     \<lparr>conversations = [], conversations_id_seq = 1,
      user_facts =
        [\<lparr>fact_id = 2, fact_session_id = ''s'', fact_key = ''name'', fact_value = ''Sam''\<rparr>,
         \<lparr>fact_id = 1, fact_session_id = ''s'', fact_key = ''location'', fact_value = ''Denver''\<rparr>],
      user_facts_id_seq = 3\<rparr>) \<and>
   (\<exists>facts. get_user_facts ''s''
        \<lparr>conversations = [], conversations_id_seq = 1,
         user_facts =
           [\<lparr>fact_id = 2, fact_session_id = ''s'', fact_key = ''name'', fact_value = ''Sam''\<rparr>,
            \<lparr>fact_id = 1, fact_session_id = ''s'', fact_key = ''location'', fact_value = ''Denver''\<rparr>],
         user_facts_id_seq = 3\<rparr> = Inr facts \<and>
      map_of facts ''location'' = Some ''Denver'')"
proof -
  let ?d = "\<lparr>conversations = [], conversations_id_seq = 1,
      user_facts =
        [\<lparr>fact_id = 1, fact_session_id = ''s'', fact_key = ''location'', fact_value = ''Boston''\<rparr>,
         \<lparr>fact_id = 2, fact_session_id = ''s'', fact_key = ''name'', fact_value = ''Sam''\<rparr>],
      user_facts_id_seq = 3\<rparr>"
  let ?d' = "\<lparr>conversations = [], conversations_id_seq = 1,
      user_facts =
        [\<lparr>fact_id = 2, fact_session_id = ''s'', fact_key = ''name'', fact_value = ''Sam''\<rparr>,
         \<lparr>fact_id = 1, fact_session_id = ''s'', fact_key = ''location'', fact_value = ''Denver''\<rparr>],
      user_facts_id_seq = 3\<rparr>"
  have h1: "one_row_per_key ?d"
    by (simp add: one_row_per_key_def)
  have h2: "upsert_user_fact ''s'' ''location'' ''Denver'' ?d = (Inr (), ?d')"
    by (simp add: upsert_user_fact_def has_nul_def)
  from upsert_then_get_user_facts [OF h1 h2] h1 h2 show ?thesis
    by blast
qed

theorem upsert_nul_value_refused:
  "upsert_user_fact ''s'' ''location'' [CHR 0x00] fresh_db = (Inl ValueError, fresh_db) \<and>
   get_user_facts ''s'' fresh_db = Inr []"
  by (simp add: upsert_user_fact_def get_user_facts_def fact_dict_def has_nul_def fresh_db_def)

section \<open>The conversation log\<close>

lemma get_last_messages_drop:
  assumes "\<not> has_nul session_id" and "0 \<le> limit" and "limit < 2 ^ 63"
  shows "get_last_messages session_id limit d =
         Inr (map (\<lambda>row. \<lparr>role = conv_role row, content = conv_content row\<rparr>)
                (drop (length (session_log session_id d) - nat limit) (session_log session_id d)))"
  using assms by (simp add: get_last_messages_def session_log_def rev_take Let_def)

text \<open>
  C3, for a limit the database takes: for a session id without a NUL character and a
  limit from 0 up to, and without, \<open>2 ^ 63\<close>, \<^verbatim>\<open>get_last_messages\<close> returns at most \<open>limit\<close>
  messages, and they are a suffix of the chronological log of the session: the most
  recent ones, oldest first, all of the log when it has no more than \<open>limit\<close>.
\<close>

theorem get_last_messages_recent:
  assumes "\<not> has_nul session_id" and "0 \<le> limit" and "limit < 2 ^ 63"
  shows "\<exists>ms. get_last_messages session_id limit d = Inr ms \<and> length ms \<le> nat limit \<and>
           length ms = min (nat limit) (length (session_log session_id d)) \<and>
           suffix ms (map (\<lambda>row. \<lparr>role = conv_role row, content = conv_content row\<rparr>)
                        (session_log session_id d))"
proof -
  let ?log = "session_log session_id d"
  let ?dict = "\<lambda>row. \<lparr>role = conv_role row, content = conv_content row\<rparr>"
  have "suffix (map ?dict (drop (length ?log - nat limit) ?log)) (map ?dict ?log)"
    by (simp add: drop_map [symmetric] suffix_drop del: drop_map)
  moreover have "length (map ?dict (drop (length ?log - nat limit) ?log)) = min (nat limit) (length ?log)"
    by simp
  ultimately show ?thesis
    using get_last_messages_drop [OF assms] by auto
qed

theorem get_last_messages_recent_witness:
  "\<not> has_nul ''a'' \<and> (0::int) \<le> 2 \<and> (2::int) < 2 ^ 63 \<and>
   get_last_messages ''a'' 2
      \<lparr>conversations =
         [\<lparr>conv_session_id = ''a'', conv_role = ''user'', conv_content = ''one''\<rparr>,
          \<lparr>conv_session_id = ''b'', conv_role = ''user'', conv_content = ''two''\<rparr>,
          \<lparr>conv_session_id = ''a'', conv_role = ''assistant'', conv_content = ''three''\<rparr>,
          \<lparr>conv_session_id = ''a'', conv_role = ''user'', conv_content = ''four''\<rparr>],
       conversations_id_seq = 5, user_facts = [], user_facts_id_seq = 1\<rparr> =
     Inr [\<lparr>role = ''assistant'', content = ''three''\<rparr>, \<lparr>role = ''user'', content = ''four''\<rparr>] \<and>
   (\<exists>ms. get_last_messages ''a'' 2
      \<lparr>conversations =
         [\<lparr>conv_session_id = ''a'', conv_role = ''user'', conv_content = ''one''\<rparr>,
          \<lparr>conv_session_id = ''b'', conv_role = ''user'', conv_content = ''two''\<rparr>,
          \<lparr>conv_session_id = ''a'', conv_role = ''assistant'', conv_content = ''three''\<rparr>,
          \<lparr>conv_session_id = ''a'', conv_role = ''user'', conv_content = ''four''\<rparr>],
       conversations_id_seq = 5, user_facts = [], user_facts_id_seq = 1\<rparr> = Inr ms \<and>
      length ms \<le> nat 2 \<and>
      suffix ms (map (\<lambda>row. \<lparr>role = conv_role row, content = conv_content row\<rparr>)
        (session_log ''a''
           \<lparr>conversations =
              [\<lparr>conv_session_id = ''a'', conv_role = ''user'', conv_content = ''one''\<rparr>,
               \<lparr>conv_session_id = ''b'', conv_role = ''user'', conv_content = ''two''\<rparr>,
               \<lparr>conv_session_id = ''a'', conv_role = ''assistant'', conv_content = ''three''\<rparr>,
               \<lparr>conv_session_id = ''a'', conv_role = ''user'', conv_content = ''four''\<rparr>],
            conversations_id_seq = 5, user_facts = [], user_facts_id_seq = 1\<rparr>)))"
proof -
  have h1: "\<not> has_nul ''a''"
    by (simp add: has_nul_def)
  have h2: "(0::int) \<le> 2" and h3: "(2::int) < 2 ^ 63"
    by simp_all
  have e: "get_last_messages ''a'' 2
      \<lparr>conversations =
         [\<lparr>conv_session_id = ''a'', conv_role = ''user'', conv_content = ''one''\<rparr>,
          \<lparr>conv_session_id = ''b'', conv_role = ''user'', conv_content = ''two''\<rparr>,
          \<lparr>conv_session_id = ''a'', conv_role = ''assistant'', conv_content = ''three''\<rparr>,
          \<lparr>conv_session_id = ''a'', conv_role = ''user'', conv_content = ''four''\<rparr>],
       conversations_id_seq = 5, user_facts = [], user_facts_id_seq = 1\<rparr> =
     Inr [\<lparr>role = ''assistant'', content = ''three''\<rparr>, \<lparr>role = ''user'', content = ''four''\<rparr>]"
    by (simp add: get_last_messages_def has_nul_def)
  from h1 h2 h3 e get_last_messages_recent [OF h1 h2 h3] show ?thesis
    by blast
qed

theorem get_last_messages_limit_refused:
  "get_last_messages ''a'' (2 ^ 63) fresh_db = Inl DataError \<and>
   get_last_messages [CHR 0x00] 5 fresh_db = Inl ValueError"
  by (simp add: get_last_messages_def has_nul_def)

section \<open>The extractor without a trigger\<close>

text \<open>
  C9: when the lower-cased input contains none of the four trigger phrases, the
  extractor returns normally and leaves the database, and so the facts of every
  session, as they were.
\<close>

theorem no_trigger_no_change:
  assumes "\<not> contains ''my name is'' (lower user_input)"
    and "\<not> contains ''i am a'' (lower user_input)"
    and "\<not> contains ''i live in'' (lower user_input)"
    and "\<not> contains ''moved to'' (lower user_input)"
  shows "extract_and_store_facts session_id user_input d = (Inr (), d)"
  using assms by (simp add: extract_and_store_facts_def seq_def skip_def)

lemma lower_hello: "lower ''Hello, how are you?'' = ''hello, how are you?''"
  by code_simp

theorem no_trigger_no_change_witness:
  "\<not> contains ''my name is'' (lower ''Hello, how are you?'') \<and>
   \<not> contains ''i am a'' (lower ''Hello, how are you?'') \<and>
   \<not> contains ''i live in'' (lower ''Hello, how are you?'') \<and>
   \<not> contains ''moved to'' (lower ''Hello, how are you?'') \<and>
   extract_and_store_facts ''default_session'' ''Hello, how are you?''
     \<lparr>conversations = [], conversations_id_seq = 1,
      user_facts = [\<lparr>fact_id = 1, fact_session_id = ''default_session'', fact_key = ''name'', fact_value = ''Alice''\<rparr>],
      user_facts_id_seq = 2\<rparr> =
   (Inr (),
     \<lparr>conversations = [], conversations_id_seq = 1,
      user_facts = [\<lparr>fact_id = 1, fact_session_id = ''default_session'', fact_key = ''name'', fact_value = ''Alice''\<rparr>],
      user_facts_id_seq = 2\<rparr>)"
proof -
  have h: "\<not> contains ''my name is'' (lower ''Hello, how are you?'')"
    "\<not> contains ''i am a'' (lower ''Hello, how are you?'')"
    "\<not> contains ''i live in'' (lower ''Hello, how are you?'')"
    "\<not> contains ''moved to'' (lower ''Hello, how are you?'')"
    by (simp_all add: lower_hello)
  from h no_trigger_no_change [OF h] show ?thesis by blast
qed

section \<open>Properties of the chat turn\<close>

text \<open>The extractor writes to the fact table only.\<close>

lemma upsert_conversations:
  "conversations (snd (upsert_user_fact s k v d)) = conversations d"
  "conversations_id_seq (snd (upsert_user_fact s k v d)) = conversations_id_seq d"
  by (simp_all add: upsert_user_fact_def split: list.split)

lemma store_fact_conversations:
  "conversations (snd (store_fact s k v d)) = conversations d"
  "conversations_id_seq (snd (store_fact s k v d)) = conversations_id_seq d"
  by (simp_all add: store_fact_def upsert_conversations split: sum.split)

lemma seq_conversations:
  assumes "\<And>d. conversations (snd (f d)) = conversations d \<and>
              conversations_id_seq (snd (f d)) = conversations_id_seq d"
    and "\<And>d. conversations (snd (g d)) = conversations d \<and>
              conversations_id_seq (snd (g d)) = conversations_id_seq d"
  shows "conversations (snd (seq f g d)) = conversations d \<and>
         conversations_id_seq (snd (seq f g d)) = conversations_id_seq d"
proof (cases "f d")
  case (Pair r d')
  with assms(1) [of d] have "conversations d' = conversations d"
    "conversations_id_seq d' = conversations_id_seq d" by simp_all
  with Pair assms(2) [of d'] show ?thesis
    by (cases r) (simp_all add: seq_def)
qed

lemma extract_conversations:
  "conversations (snd (extract_and_store_facts s u d)) = conversations d \<and>
   conversations_id_seq (snd (extract_and_store_facts s u d)) = conversations_id_seq d"
  unfolding extract_and_store_facts_def Let_def
  by (intro seq_conversations) (simp_all add: store_fact_conversations skip_def)

text \<open>What a call of \<^verbatim>\<open>save_message\<close> that returns has done.\<close>

lemma save_message_returns:
  assumes "save_message s r c d = (Inr (), d')"
  shows "conversations d' = conversations d @ [\<lparr>conv_session_id = s, conv_role = r, conv_content = c\<rparr>]"
    and "user_facts d' = user_facts d" and "user_facts_id_seq d' = user_facts_id_seq d"
  using assms by (auto simp: save_message_def split: if_splits)

text \<open>The system prompt of the program is the system instruction of the specification.\<close>

lemma capitalize_spec: "capitalize k = spec_capitalized k"
  by (cases k) (simp_all add: capitalize_def spec_capitalized_def code_points_def lower_def)

lemma join_spec:
  "join (code_points '', '') (map (\<lambda>(k, v). capitalize k @ code_points '' = '' @ code_points v) facts) =
   spec_pairs facts"
proof (induction facts)
  case Nil
  show ?case by simp
next
  case (Cons kv facts)
  then show ?case
    by (cases kv; cases facts) (simp_all add: capitalize_spec)
qed

lemma system_prompt_spec:
  "system_prompt facts =
   (if facts = [] then code_points ''No known facts about the user.''
    else code_points ''User facts: '' @ spec_pairs facts)"
  by (simp add: system_prompt_def join_spec)

lemma chat_with_memory_turn:
  assumes "extract_and_store_facts SESSION_ID user_input d = (Inr (), d1)"
    and "save_message SESSION_ID ''user'' user_input d1 = (Inr (), d2)"
  shows "chat_with_memory invoke user_input d =
         (case invoke (spec_messages user_input d2) of
            Inl e \<Rightarrow> (Inl e, d2)
          | Inr response \<Rightarrow>
              (case save_message SESSION_ID ''assistant'' response d2 of
                 (Inl e, d3) \<Rightarrow> (Inl e, d3)
               | (Inr x, d3) \<Rightarrow> (Inr response, d3)))"
proof -
  have nul: "\<not> has_nul SESSION_ID"
    by (simp add: has_nul_def SESSION_ID_def)
  have facts: "get_user_facts SESSION_ID d2 = Inr (fact_dict SESSION_ID d2)"
    using nul by (rule get_user_facts_returns)
  have hist: "get_last_messages SESSION_ID 5 d2 =
      Inr (map (\<lambda>row. \<lparr>role = conv_role row, content = conv_content row\<rparr>)
             (drop (length (session_log SESSION_ID d2) - 5) (session_log SESSION_ID d2)))"
    using get_last_messages_drop [of SESSION_ID 5 d2] nul by simp
  have msgs: "[SystemMessage (system_prompt (fact_dict SESSION_ID d2))] @
      map history_message (map (\<lambda>row. \<lparr>role = conv_role row, content = conv_content row\<rparr>)
             (drop (length (session_log SESSION_ID d2) - 5) (session_log SESSION_ID d2))) @
      [HumanMessage (code_points user_input)] = spec_messages user_input d2"
    by (simp add: spec_messages_def system_prompt_spec history_message_def Let_def o_def)
  show ?thesis
    using msgs by (simp add: chat_with_memory_def assms facts hist Let_def)
qed

text \<open>
  C2: in a turn that reaches the completion endpoint (the fact extraction and the
  writing of the user turn return), the list handed to the endpoint is the system
  instruction (the facts as \<^verbatim>\<open>Key = Value\<close>, keys capitalized, joined by commas; the
  fallback string when there is no fact), then the five most recent logged messages
  in chronological order, each as the message type of its role, then the user's
  utterance. The log is read after the user turn was appended: its last row is the
  current utterance, which so stands in the list twice.
\<close>

theorem chat_sends_assembled_messages:
  assumes "extract_and_store_facts SESSION_ID user_input d = (Inr (), d1)"
    and "save_message SESSION_ID ''user'' user_input d1 = (Inr (), d2)"
  shows "chat_with_memory invoke user_input d =
           (case invoke (spec_messages user_input d2) of
              Inl e \<Rightarrow> (Inl e, d2)
            | Inr response \<Rightarrow>
                (case save_message SESSION_ID ''assistant'' response d2 of
                   (Inl e, d3) \<Rightarrow> (Inl e, d3)
                 | (Inr x, d3) \<Rightarrow> (Inr response, d3))) \<and>
         last (session_log SESSION_ID d2) =
           \<lparr>conv_session_id = SESSION_ID, conv_role = ''user'', conv_content = user_input\<rparr>"
  using chat_with_memory_turn [OF assms] save_message_returns(1) [OF assms(2)]
  by (simp add: session_log_def)

text \<open>
  A turn on a database with two facts of the session, one fact of another session,
  six logged messages of the session and one of the other.
\<close>

lemma moved_to_denver:
  "lower ''I moved to Denver.'' = ''i moved to denver.''"
  "phrase_value ''moved to'' ''I moved to Denver.'' = Inr ''Denver''"
  by code_simp+

lemma extract_example:
  "extract_and_store_facts SESSION_ID ''I moved to Denver.'' example_db =
   (Inr (), example_db
      \<lparr>user_facts :=
         [\<lparr>fact_id = 2, fact_session_id = ''default_session'', fact_key = ''name'', fact_value = ''Sam''\<rparr>,
          \<lparr>fact_id = 3, fact_session_id = ''other'', fact_key = ''name'', fact_value = ''Eve''\<rparr>,
          \<lparr>fact_id = 1, fact_session_id = ''default_session'', fact_key = ''location'', fact_value = ''Denver''\<rparr>]\<rparr>)"
  by (simp add: extract_and_store_facts_def moved_to_denver seq_def skip_def store_fact_def
      upsert_user_fact_def has_nul_def SESSION_ID_def example_db_def)

lemma save_example:
  "save_message SESSION_ID ''user'' ''I moved to Denver.''
     (example_db
      \<lparr>user_facts :=
         [\<lparr>fact_id = 2, fact_session_id = ''default_session'', fact_key = ''name'', fact_value = ''Sam''\<rparr>,
          \<lparr>fact_id = 3, fact_session_id = ''other'', fact_key = ''name'', fact_value = ''Eve''\<rparr>,
          \<lparr>fact_id = 1, fact_session_id = ''default_session'', fact_key = ''location'', fact_value = ''Denver''\<rparr>]\<rparr>) =
   (Inr (), example_db
      \<lparr>conversations := conversations example_db @
         [\<lparr>conv_session_id = ''default_session'', conv_role = ''user'', conv_content = ''I moved to Denver.''\<rparr>],
       conversations_id_seq := 9,
       user_facts :=
         [\<lparr>fact_id = 2, fact_session_id = ''default_session'', fact_key = ''name'', fact_value = ''Sam''\<rparr>,
          \<lparr>fact_id = 3, fact_session_id = ''other'', fact_key = ''name'', fact_value = ''Eve''\<rparr>,
          \<lparr>fact_id = 1, fact_session_id = ''default_session'', fact_key = ''location'', fact_value = ''Denver''\<rparr>]\<rparr>)"
  by (simp add: save_message_def has_nul_def SESSION_ID_def example_db_def max_serial_def)

lemma spec_capitalized_example:
  "spec_capitalized ''name'' = code_points ''Name''"
  "spec_capitalized ''location'' = code_points ''Location''"
  by (simp_all add: spec_capitalized_def titlecase_def lower_chr_def code_points_def)

lemma code_points_append: "code_points a @ code_points b = code_points (a @ b)"
  by (simp add: code_points_def)

lemma spec_pairs_example:
  "spec_pairs [(''name'', ''Sam''), (''location'', ''Denver'')] =
   code_points ''Name = Sam, Location = Denver''"
  by (simp add: spec_capitalized_example code_points_append)

lemma spec_messages_example:
  "spec_messages ''I moved to Denver.''
     (example_db
      \<lparr>conversations := conversations example_db @
         [\<lparr>conv_session_id = ''default_session'', conv_role = ''user'', conv_content = ''I moved to Denver.''\<rparr>],
       conversations_id_seq := 9,
       user_facts :=
         [\<lparr>fact_id = 2, fact_session_id = ''default_session'', fact_key = ''name'', fact_value = ''Sam''\<rparr>,
          \<lparr>fact_id = 3, fact_session_id = ''other'', fact_key = ''name'', fact_value = ''Eve''\<rparr>,
          \<lparr>fact_id = 1, fact_session_id = ''default_session'', fact_key = ''location'', fact_value = ''Denver''\<rparr>]\<rparr>) =
   [SystemMessage (code_points ''User facts: Name = Sam, Location = Denver''),
    HumanMessage (code_points ''What is the weather?''),
    AIMessage (code_points ''Sunny.''),
    HumanMessage (code_points ''Thanks''),
    AIMessage (code_points ''Welcome.''),
    HumanMessage (code_points ''I moved to Denver.''),
    HumanMessage (code_points ''I moved to Denver.'')]"
proof -
  have "fact_dict SESSION_ID
     (example_db
      \<lparr>conversations := conversations example_db @
         [\<lparr>conv_session_id = ''default_session'', conv_role = ''user'', conv_content = ''I moved to Denver.''\<rparr>],
       conversations_id_seq := 9,
       user_facts :=
         [\<lparr>fact_id = 2, fact_session_id = ''default_session'', fact_key = ''name'', fact_value = ''Sam''\<rparr>,
          \<lparr>fact_id = 3, fact_session_id = ''other'', fact_key = ''name'', fact_value = ''Eve''\<rparr>,
          \<lparr>fact_id = 1, fact_session_id = ''default_session'', fact_key = ''location'', fact_value = ''Denver''\<rparr>]\<rparr>) =
     [(''name'', ''Sam''), (''location'', ''Denver'')]"
    by (simp add: fact_dict_def SESSION_ID_def)
  then show ?thesis
    by (simp add: spec_messages_def spec_pairs_example code_points_append session_log_def
        SESSION_ID_def example_db_def del: spec_pairs.simps)
qed

theorem chat_sends_assembled_messages_witness:
  "extract_and_store_facts SESSION_ID ''I moved to Denver.'' example_db =
   (Inr (), example_db
      \<lparr>user_facts :=
         [\<lparr>fact_id = 2, fact_session_id = ''default_session'', fact_key = ''name'', fact_value = ''Sam''\<rparr>,
          \<lparr>fact_id = 3, fact_session_id = ''other'', fact_key = ''name'', fact_value = ''Eve''\<rparr>,
          \<lparr>fact_id = 1, fact_session_id = ''default_session'', fact_key = ''location'', fact_value = ''Denver''\<rparr>]\<rparr>) \<and>
   save_message SESSION_ID ''user'' ''I moved to Denver.''
     (example_db
      \<lparr>user_facts :=
         [\<lparr>fact_id = 2, fact_session_id = ''default_session'', fact_key = ''name'', fact_value = ''Sam''\<rparr>,
          \<lparr>fact_id = 3, fact_session_id = ''other'', fact_key = ''name'', fact_value = ''Eve''\<rparr>,
          \<lparr>fact_id = 1, fact_session_id = ''default_session'', fact_key = ''location'', fact_value = ''Denver''\<rparr>]\<rparr>) =
   (Inr (), example_db
      \<lparr>conversations := conversations example_db @
         [\<lparr>conv_session_id = ''default_session'', conv_role = ''user'', conv_content = ''I moved to Denver.''\<rparr>],
       conversations_id_seq := 9,
       user_facts :=
         [\<lparr>fact_id = 2, fact_session_id = ''default_session'', fact_key = ''name'', fact_value = ''Sam''\<rparr>,
          \<lparr>fact_id = 3, fact_session_id = ''other'', fact_key = ''name'', fact_value = ''Eve''\<rparr>,
          \<lparr>fact_id = 1, fact_session_id = ''default_session'', fact_key = ''location'', fact_value = ''Denver''\<rparr>]\<rparr>) \<and>
   fst (chat_with_memory
         (\<lambda>messages.
            if messages =
               [SystemMessage (code_points ''User facts: Name = Sam, Location = Denver''),
                HumanMessage (code_points ''What is the weather?''),
                AIMessage (code_points ''Sunny.''),
                HumanMessage (code_points ''Thanks''),
                AIMessage (code_points ''Welcome.''),
                HumanMessage (code_points ''I moved to Denver.''),
                HumanMessage (code_points ''I moved to Denver.'')]
            then Inr ''Noted.'' else Inl EndpointError)
         ''I moved to Denver.'' example_db) = Inr ''Noted.''"
proof -
  note turn = chat_sends_assembled_messages [OF extract_example save_example,
      unfolded spec_messages_example, THEN conjunct1]
  have "fst (chat_with_memory
         (\<lambda>messages.
            if messages =
               [SystemMessage (code_points ''User facts: Name = Sam, Location = Denver''),
                HumanMessage (code_points ''What is the weather?''),
                AIMessage (code_points ''Sunny.''),
                HumanMessage (code_points ''Thanks''),
                AIMessage (code_points ''Welcome.''),
                HumanMessage (code_points ''I moved to Denver.''),
                HumanMessage (code_points ''I moved to Denver.'')]
            then Inr ''Noted.'' else Inl EndpointError)
         ''I moved to Denver.'' example_db) = Inr ''Noted.''"
    unfolding turn
    by (simp add: save_message_def has_nul_def SESSION_ID_def max_serial_def example_db_def)
  with extract_example save_example show ?thesis
    by (intro conjI)
qed

text \<open>
  C8: when the call of the completion endpoint fails, \<^verbatim>\<open>chat_with_memory\<close> ends with
  that error and no reply; the log is the log from before the turn with the user's
  message appended and no assistant message, and the facts stored by the extractor
  stay.
\<close>

theorem endpoint_failure_keeps_user_turn:
  assumes "extract_and_store_facts SESSION_ID user_input d = (Inr (), d1)"
    and "save_message SESSION_ID ''user'' user_input d1 = (Inr (), d2)"
    and "invoke (spec_messages user_input d2) = Inl e"
  shows "chat_with_memory invoke user_input d = (Inl e, d2) \<and>
         conversations d2 =
           conversations d @ [\<lparr>conv_session_id = SESSION_ID, conv_role = ''user'', conv_content = user_input\<rparr>] \<and>
         user_facts d2 = user_facts d1"
proof -
  from extract_conversations [of SESSION_ID user_input d] assms(1)
  have "conversations d1 = conversations d" by simp
  with save_message_returns(1,2) [OF assms(2)]
  have "conversations d2 =
      conversations d @ [\<lparr>conv_session_id = SESSION_ID, conv_role = ''user'', conv_content = user_input\<rparr>]"
    and "user_facts d2 = user_facts d1"
    by simp_all
  moreover have "chat_with_memory invoke user_input d = (Inl e, d2)"
    by (simp add: chat_with_memory_turn [OF assms(1,2)] assms(3))
  ultimately show ?thesis
    by simp
qed

theorem endpoint_failure_keeps_user_turn_witness:
  "extract_and_store_facts SESSION_ID ''I moved to Denver.'' example_db =
   (Inr (), example_db
      \<lparr>user_facts :=
         [\<lparr>fact_id = 2, fact_session_id = ''default_session'', fact_key = ''name'', fact_value = ''Sam''\<rparr>,
          \<lparr>fact_id = 3, fact_session_id = ''other'', fact_key = ''name'', fact_value = ''Eve''\<rparr>,
          \<lparr>fact_id = 1, fact_session_id = ''default_session'', fact_key = ''location'', fact_value = ''Denver''\<rparr>]\<rparr>) \<and>
   save_message SESSION_ID ''user'' ''I moved to Denver.''
     (example_db
      \<lparr>user_facts :=
         [\<lparr>fact_id = 2, fact_session_id = ''default_session'', fact_key = ''name'', fact_value = ''Sam''\<rparr>,
          \<lparr>fact_id = 3, fact_session_id = ''other'', fact_key = ''name'', fact_value = ''Eve''\<rparr>,
          \<lparr>fact_id = 1, fact_session_id = ''default_session'', fact_key = ''location'', fact_value = ''Denver''\<rparr>]\<rparr>) =
   (Inr (), example_db
      \<lparr>conversations := conversations example_db @
         [\<lparr>conv_session_id = ''default_session'', conv_role = ''user'', conv_content = ''I moved to Denver.''\<rparr>],
       conversations_id_seq := 9,
       user_facts :=
         [\<lparr>fact_id = 2, fact_session_id = ''default_session'', fact_key = ''name'', fact_value = ''Sam''\<rparr>,
          \<lparr>fact_id = 3, fact_session_id = ''other'', fact_key = ''name'', fact_value = ''Eve''\<rparr>,
          \<lparr>fact_id = 1, fact_session_id = ''default_session'', fact_key = ''location'', fact_value = ''Denver''\<rparr>]\<rparr>) \<and>
   chat_with_memory (\<lambda>messages. Inl EndpointError) ''I moved to Denver.'' example_db =
   (Inl EndpointError, example_db
      \<lparr>conversations := conversations example_db @
         [\<lparr>conv_session_id = ''default_session'', conv_role = ''user'', conv_content = ''I moved to Denver.''\<rparr>],
       conversations_id_seq := 9,
       user_facts :=
         [\<lparr>fact_id = 2, fact_session_id = ''default_session'', fact_key = ''name'', fact_value = ''Sam''\<rparr>,
          \<lparr>fact_id = 3, fact_session_id = ''other'', fact_key = ''name'', fact_value = ''Eve''\<rparr>,
          \<lparr>fact_id = 1, fact_session_id = ''default_session'', fact_key = ''location'', fact_value = ''Denver''\<rparr>]\<rparr>)"
  using extract_example save_example
    endpoint_failure_keeps_user_turn [OF extract_example save_example,
      of "\<lambda>messages. Inl EndpointError" EndpointError, OF refl, THEN conjunct1]
  by (intro conjI)

section \<open>The extractor on two inputs\<close>

text \<open>
  C1: on an empty fact table, for a session id without a NUL character and a
  sequence that can give two more ids, the input
  \<^verbatim>\<open>Hi, my name is Alice and I live in Boston.\<close> stores the name \<^verbatim>\<open>Alice\<close>, and as the
  location the whole utterance up to its period: the phrase \<^verbatim>\<open>i live in\<close> is found in
  the lower-cased text, and the original text, which has \<^verbatim>\<open>I live in\<close>, is split at it.
\<close>

theorem extract_alice_boston:
  assumes "\<not> has_nul s" and "n < max_serial"
  shows "\<exists>d'. extract_and_store_facts s ''Hi, my name is Alice and I live in Boston.''
            \<lparr>conversations = cs, conversations_id_seq = m, user_facts = [], user_facts_id_seq = n\<rparr> =
              (Inr (), d') \<and>
           get_user_facts s d' =
             Inr [(''name'', ''Alice''), (''location'', ''Hi, my name is Alice and I live in Boston'')]"
proof -
  have "lower ''Hi, my name is Alice and I live in Boston.'' = ''hi, my name is alice and i live in boston.''"
    by code_simp
  moreover have "name_value ''Hi, my name is Alice and I live in Boston.'' = Inr ''Alice''"
    by (simp add: name_value_def last_item_def first_item_def strip_def isspace_def split_whitespace_def)
  moreover have "phrase_value ''i live in'' ''Hi, my name is Alice and I live in Boston.'' =
      Inr ''Hi, my name is Alice and I live in Boston''"
    by (simp add: phrase_value_def last_item_def first_item_def strip_def isspace_def)
  moreover have "\<not> has_nul ''name''" "\<not> has_nul ''Alice''" "\<not> has_nul ''location''"
    "\<not> has_nul ''Hi, my name is Alice and I live in Boston''"
    by (simp_all add: has_nul_def)
  ultimately show ?thesis
    using assms
    by (simp add: extract_and_store_facts_def seq_def skip_def store_fact_def upsert_user_fact_def
        get_user_facts_def fact_dict_def)
qed

theorem extract_alice_boston_witness:
  "\<not> has_nul ''default_session'' \<and> 1 < max_serial \<and>
   extract_and_store_facts ''default_session'' ''Hi, my name is Alice and I live in Boston.'' fresh_db =
     (Inr (),
      \<lparr>conversations = [], conversations_id_seq = 1,
       user_facts =
         [\<lparr>fact_id = 1, fact_session_id = ''default_session'', fact_key = ''name'', fact_value = ''Alice''\<rparr>,
          \<lparr>fact_id = 2, fact_session_id = ''default_session'', fact_key = ''location'',
            fact_value = ''Hi, my name is Alice and I live in Boston''\<rparr>],
       user_facts_id_seq = 3\<rparr>) \<and>
   get_user_facts ''default_session''
      \<lparr>conversations = [], conversations_id_seq = 1,
       user_facts =
         [\<lparr>fact_id = 1, fact_session_id = ''default_session'', fact_key = ''name'', fact_value = ''Alice''\<rparr>,
          \<lparr>fact_id = 2, fact_session_id = ''default_session'', fact_key = ''location'',
            fact_value = ''Hi, my name is Alice and I live in Boston''\<rparr>],
       user_facts_id_seq = 3\<rparr> =
     Inr [(''name'', ''Alice''), (''location'', ''Hi, my name is Alice and I live in Boston'')]"
proof -
  have h1: "\<not> has_nul ''default_session''"
    by (simp add: has_nul_def)
  have h2: "1 < max_serial"
    by (simp add: max_serial_def)
  have "lower ''Hi, my name is Alice and I live in Boston.'' = ''hi, my name is alice and i live in boston.''"
    by code_simp
  moreover have "name_value ''Hi, my name is Alice and I live in Boston.'' = Inr ''Alice''"
    by (simp add: name_value_def last_item_def first_item_def strip_def isspace_def split_whitespace_def)
  moreover have "phrase_value ''i live in'' ''Hi, my name is Alice and I live in Boston.'' =
      Inr ''Hi, my name is Alice and I live in Boston''"
    by (simp add: phrase_value_def last_item_def first_item_def strip_def isspace_def)
  ultimately have e: "extract_and_store_facts ''default_session'' ''Hi, my name is Alice and I live in Boston.'' fresh_db =
     (Inr (),
      \<lparr>conversations = [], conversations_id_seq = 1,
       user_facts =
         [\<lparr>fact_id = 1, fact_session_id = ''default_session'', fact_key = ''name'', fact_value = ''Alice''\<rparr>,
          \<lparr>fact_id = 2, fact_session_id = ''default_session'', fact_key = ''location'',
            fact_value = ''Hi, my name is Alice and I live in Boston''\<rparr>],
       user_facts_id_seq = 3\<rparr>)"
    by (simp add: extract_and_store_facts_def seq_def skip_def store_fact_def upsert_user_fact_def
        has_nul_def max_serial_def fresh_db_def)
  from extract_alice_boston [OF h1 h2, of "[]" 1] obtain d' where
    "extract_and_store_facts ''default_session'' ''Hi, my name is Alice and I live in Boston.''
       \<lparr>conversations = [], conversations_id_seq = 1, user_facts = [], user_facts_id_seq = 1\<rparr> = (Inr (), d')"
    "get_user_facts ''default_session'' d' =
      Inr [(''name'', ''Alice''), (''location'', ''Hi, my name is Alice and I live in Boston'')]"
    by blast
  with e h1 h2 show ?thesis
    by (simp add: fresh_db_def)
qed

text \<open>
  C5: an input that ends at the phrase \<^verbatim>\<open>my name is\<close> raises \<^verbatim>\<open>IndexError\<close>: there is
  no token behind the phrase, and the first element of an empty list is read. Nothing
  is stored.
\<close>

theorem name_trigger_at_end_raises:
  "extract_and_store_facts s ''my name is'' d = (Inl IndexError, d)"
proof -
  have "lower ''my name is'' = ''my name is''"
    by code_simp
  moreover have "name_value ''my name is'' = Inl IndexError"
    by (simp add: name_value_def last_item_def first_item_def strip_def split_whitespace_def)
  ultimately show ?thesis
    by (simp add: extract_and_store_facts_def seq_def store_fact_def)
qed

text \<open>
  The three other triggers store the empty string for such an input: the first piece
  of \<^verbatim>\<open>split('.')\<close> always exists.
\<close>

lemma phrase_trigger_at_end_stores_empty:
  "extract_and_store_facts ''s'' ''i am a'' fresh_db =
   (Inr (), \<lparr>conversations = [], conversations_id_seq = 1,
      user_facts = [\<lparr>fact_id = 1, fact_session_id = ''s'', fact_key = ''profession'', fact_value = []\<rparr>],
      user_facts_id_seq = 2\<rparr>)"
proof -
  have "lower ''i am a'' = ''i am a''"
    by code_simp
  moreover have "phrase_value ''i am a'' ''i am a'' = Inr []"
    by (simp add: phrase_value_def last_item_def first_item_def strip_def)
  ultimately show ?thesis
    by (simp add: extract_and_store_facts_def seq_def skip_def store_fact_def upsert_user_fact_def
        has_nul_def max_serial_def fresh_db_def)
qed

section \<open>The stages of the extractor\<close>

text \<open>
  When the extractor returns, each of its four conditional writes has returned, one
  after the other.
\<close>

lemma seq_returns:
  assumes "seq f g d = (Inr (), d')"
  obtains d1 where "f d = (Inr (), d1)" and "g d1 = (Inr (), d')"
  using assms by (auto simp: seq_def split: prod.splits sum.splits)

lemma extract_stages:
  assumes "extract_and_store_facts s u d = (Inr (), d')"
  obtains d1 d2 d3 where
    "(if contains ''my name is'' (lower u)
      then store_fact s ''name'' (name_value u) else skip) d = (Inr (), d1)"
    "(if contains ''i am a'' (lower u)
      then store_fact s ''profession'' (phrase_value ''i am a'' u) else skip) d1 = (Inr (), d2)"
    "(if contains ''i live in'' (lower u)
      then store_fact s ''location'' (phrase_value ''i live in'' u) else skip) d2 = (Inr (), d3)"
    "(if contains ''moved to'' (lower u)
      then store_fact s ''location'' (phrase_value ''moved to'' u) else skip) d3 = (Inr (), d')"
proof -
  let ?name = "if contains ''my name is'' (lower u)
      then store_fact s ''name'' (name_value u) else skip"
  let ?profession = "if contains ''i am a'' (lower u)
      then store_fact s ''profession'' (phrase_value ''i am a'' u) else skip"
  let ?live = "if contains ''i live in'' (lower u)
      then store_fact s ''location'' (phrase_value ''i live in'' u) else skip"
  let ?moved = "if contains ''moved to'' (lower u)
      then store_fact s ''location'' (phrase_value ''moved to'' u) else skip"
  from assms have "seq ?name (seq ?profession (seq ?live ?moved)) d = (Inr (), d')"
    by (simp add: extract_and_store_facts_def Let_def)
  then obtain d1 where 1: "?name d = (Inr (), d1)"
    and r1: "seq ?profession (seq ?live ?moved) d1 = (Inr (), d')"
    by (rule seq_returns)
  from r1 obtain d2 where 2: "?profession d1 = (Inr (), d2)"
    and r2: "seq ?live ?moved d2 = (Inr (), d')"
    by (rule seq_returns)
  from r2 obtain d3 where 3: "?live d2 = (Inr (), d3)" and 4: "?moved d3 = (Inr (), d')"
    by (rule seq_returns)
  from 1 2 3 4 show ?thesis
    by (rule that)
qed

lemma stage_cases:
  assumes "(if c then store_fact s k v else skip) d = (Inr (), d')"
  obtains (stored) x where "c" "v = Inr x" "upsert_user_fact s k x d = (Inr (), d')"
  | (skipped) "\<not> c" "d' = d"
  using assms by (cases c; cases v) (auto simp: store_fact_def skip_def)

lemma stage_one_row_per_key:
  assumes "(if c then store_fact s k v else skip) d = (Inr (), d')" and "one_row_per_key d"
  shows "one_row_per_key d'"
  using assms(1) by (cases rule: stage_cases) (auto intro: upsert_one_row_per_key assms(2))

lemma stage_primary_key_ok:
  assumes "(if c then store_fact s k v else skip) d = (Inr (), d')" and "primary_key_ok d"
  shows "primary_key_ok d'"
  using assms(1) by (cases rule: stage_cases) (auto intro: upsert_primary_key_ok assms(2))

lemma stage_lookup_other:
  assumes "(if c then store_fact s k v else skip) d = (Inr (), d')"
    and "one_row_per_key d" and "primary_key_ok d" and "k' \<noteq> k"
  shows "map_of (fact_dict s d') k' = map_of (fact_dict s d) k'"
  using assms(1)
proof (cases rule: stage_cases)
  case (stored x)
  from stored(3) assms(2,3) show ?thesis
    by (rule upsert_lookup_other) (simp add: assms(4))
next
  case skipped
  then show ?thesis by simp
qed

lemma stage_lookup_same:
  assumes "(if c then store_fact s k v else skip) d = (Inr (), d')"
    and "one_row_per_key d" and "c"
  obtains x where "v = Inr x" and "map_of (fact_dict s d') k = Some x" and "\<not> has_nul s"
  using assms(1)
proof (cases rule: stage_cases)
  case (stored x)
  from stored(2) upsert_lookup_same [OF stored(3) assms(2)] upsert_returns(1) [OF stored(3)]
  show ?thesis
    by (rule that)
next
  case skipped
  with assms(3) show ?thesis by simp
qed

text \<open>The facts a returning extractor has stored.\<close>

lemma extract_stored:
  assumes "extract_and_store_facts s u d = (Inr (), d')"
    and "one_row_per_key d" and "primary_key_ok d"
  shows "contains ''my name is'' (lower u) \<Longrightarrow>
           \<exists>name. name_value u = Inr name \<and> map_of (fact_dict s d') ''name'' = Some name \<and> \<not> has_nul s"
    and "contains ''i am a'' (lower u) \<Longrightarrow>
           map_of (fact_dict s d') ''profession'' =
             Some (takeWhile (\<lambda>c. c \<noteq> CHR ''.'') (strip (last (split_on ''i am a'' u)))) \<and> \<not> has_nul s"
    and "contains ''moved to'' (lower u) \<Longrightarrow>
           map_of (fact_dict s d') ''location'' =
             Some (takeWhile (\<lambda>c. c \<noteq> CHR ''.'') (strip (last (split_on ''moved to'' u)))) \<and> \<not> has_nul s"
    and "contains ''i live in'' (lower u) \<Longrightarrow> \<not> contains ''moved to'' (lower u) \<Longrightarrow>
           map_of (fact_dict s d') ''location'' =
             Some (takeWhile (\<lambda>c. c \<noteq> CHR ''.'') (strip (last (split_on ''i live in'' u)))) \<and> \<not> has_nul s"
proof -
  from assms(1) obtain d1 d2 d3 where
    s1: "(if contains ''my name is'' (lower u)
      then store_fact s ''name'' (name_value u) else skip) d = (Inr (), d1)" and
    s2: "(if contains ''i am a'' (lower u)
      then store_fact s ''profession'' (phrase_value ''i am a'' u) else skip) d1 = (Inr (), d2)" and
    s3: "(if contains ''i live in'' (lower u)
      then store_fact s ''location'' (phrase_value ''i live in'' u) else skip) d2 = (Inr (), d3)" and
    s4: "(if contains ''moved to'' (lower u)
      then store_fact s ''location'' (phrase_value ''moved to'' u) else skip) d3 = (Inr (), d')"
    by (rule extract_stages)
  note i0 = assms(2,3)
  note i1 = stage_one_row_per_key [OF s1 i0(1)] stage_primary_key_ok [OF s1 i0(2)]
  note i2 = stage_one_row_per_key [OF s2 i1(1)] stage_primary_key_ok [OF s2 i1(2)]
  note i3 = stage_one_row_per_key [OF s3 i2(1)] stage_primary_key_ok [OF s3 i2(2)]
  have l4: "map_of (fact_dict s d') k = map_of (fact_dict s d3) k" if "k \<noteq> ''location''" for k
    using s4 i3 that by (rule stage_lookup_other)
  have l3: "map_of (fact_dict s d3) k = map_of (fact_dict s d2) k" if "k \<noteq> ''location''" for k
    using s3 i2 that by (rule stage_lookup_other)
  have l2: "map_of (fact_dict s d2) k = map_of (fact_dict s d1) k" if "k \<noteq> ''profession''" for k
    using s2 i1 that by (rule stage_lookup_other)
  show "\<exists>name. name_value u = Inr name \<and> map_of (fact_dict s d') ''name'' = Some name \<and> \<not> has_nul s"
    if "contains ''my name is'' (lower u)"
    using s1 i0(1) that by (rule stage_lookup_same) (simp add: l4 l3 l2)
  show "map_of (fact_dict s d') ''profession'' =
      Some (takeWhile (\<lambda>c. c \<noteq> CHR ''.'') (strip (last (split_on ''i am a'' u)))) \<and> \<not> has_nul s"
    if "contains ''i am a'' (lower u)"
    using s2 i1(1) that by (rule stage_lookup_same) (simp add: l4 l3 phrase_value_eq)
  show "map_of (fact_dict s d') ''location'' =
      Some (takeWhile (\<lambda>c. c \<noteq> CHR ''.'') (strip (last (split_on ''moved to'' u)))) \<and> \<not> has_nul s"
    if "contains ''moved to'' (lower u)"
    using s4 i3(1) that by (rule stage_lookup_same) (simp add: phrase_value_eq)
  show "map_of (fact_dict s d') ''location'' =
      Some (takeWhile (\<lambda>c. c \<noteq> CHR ''.'') (strip (last (split_on ''i live in'' u)))) \<and> \<not> has_nul s"
    if "contains ''i live in'' (lower u)" and no: "\<not> contains ''moved to'' (lower u)"
  proof -
    from s4 no have same: "d' = d3"
      by (simp add: skip_def)
    show ?thesis
      unfolding same using s3 i2(1) that(1) by (rule stage_lookup_same) (simp add: phrase_value_eq)
  qed
qed

section \<open>The order of the two location triggers\<close>

text \<open>
  C7, for a call that returns: when the phrase \<^verbatim>\<open>moved to\<close> matches and the extractor
  returns without raising, on a fact table with at most one row for each session and
  key, the location stored at the end is the value derived from that phrase, whether
  or not \<^verbatim>\<open>i live in\<close> matched in the same utterance and whatever location was stored
  before: the \<^verbatim>\<open>moved to\<close> trigger is the last to write.
\<close>

theorem moved_to_sets_location:
  assumes "one_row_per_key d" and "contains ''moved to'' (lower user_input)"
    and "extract_and_store_facts session_id user_input d = (Inr (), d')"
  shows "\<exists>v facts. phrase_value ''moved to'' user_input = Inr v \<and>
           get_user_facts session_id d' = Inr facts \<and> map_of facts ''location'' = Some v"
proof -
  from assms(3) obtain d1 d2 d3 where
    s1: "(if contains ''my name is'' (lower user_input)
      then store_fact session_id ''name'' (name_value user_input) else skip) d = (Inr (), d1)" and
    s2: "(if contains ''i am a'' (lower user_input)
      then store_fact session_id ''profession'' (phrase_value ''i am a'' user_input) else skip) d1 =
        (Inr (), d2)" and
    s3: "(if contains ''i live in'' (lower user_input)
      then store_fact session_id ''location'' (phrase_value ''i live in'' user_input) else skip) d2 =
        (Inr (), d3)" and
    s4: "(if contains ''moved to'' (lower user_input)
      then store_fact session_id ''location'' (phrase_value ''moved to'' user_input) else skip) d3 =
        (Inr (), d')"
    by (rule extract_stages)
  from s1 assms(1) have "one_row_per_key d1"
    by (rule stage_one_row_per_key)
  with s2 have "one_row_per_key d2"
    by (rule stage_one_row_per_key)
  with s3 have "one_row_per_key d3"
    by (rule stage_one_row_per_key)
  with s4 obtain v where "phrase_value ''moved to'' user_input = Inr v"
    and "map_of (fact_dict session_id d') ''location'' = Some v" and "\<not> has_nul session_id"
    using assms(2) by (rule stage_lookup_same)
  then show ?thesis
    by (simp add: get_user_facts_returns)
qed

lemma lower_austin_denver:
  "lower ''i live in Austin. I moved to Denver.'' = ''i live in austin. i moved to denver.''"
  by code_simp

theorem moved_to_sets_location_witness:
  "one_row_per_key
     \<lparr>conversations = [], conversations_id_seq = 1,
      user_facts = [\<lparr>fact_id = 1, fact_session_id = ''s'', fact_key = ''location'', fact_value = ''Boston''\<rparr>],
      user_facts_id_seq = 2\<rparr> \<and>
   contains ''i live in'' (lower ''i live in Austin. I moved to Denver.'') \<and>
   contains ''moved to'' (lower ''i live in Austin. I moved to Denver.'') \<and>
   extract_and_store_facts ''s'' ''i live in Austin. I moved to Denver.''
     \<lparr>conversations = [], conversations_id_seq = 1,
      user_facts = [\<lparr>fact_id = 1, fact_session_id = ''s'', fact_key = ''location'', fact_value = ''Boston''\<rparr>],
      user_facts_id_seq = 2\<rparr> =
   (Inr (),
     \<lparr>conversations = [], conversations_id_seq = 1,
      user_facts = [\<lparr>fact_id = 1, fact_session_id = ''s'', fact_key = ''location'', fact_value = ''Denver''\<rparr>],
      user_facts_id_seq = 2\<rparr>) \<and>
   phrase_value ''moved to'' ''i live in Austin. I moved to Denver.'' = Inr ''Denver'' \<and>
   (\<exists>facts. get_user_facts ''s''
       \<lparr>conversations = [], conversations_id_seq = 1,
        user_facts = [\<lparr>fact_id = 1, fact_session_id = ''s'', fact_key = ''location'', fact_value = ''Denver''\<rparr>],
        user_facts_id_seq = 2\<rparr> = Inr facts \<and>
      map_of facts ''location'' = Some ''Denver'')"
proof -
  let ?d = "\<lparr>conversations = [], conversations_id_seq = 1,
      user_facts = [\<lparr>fact_id = 1, fact_session_id = ''s'', fact_key = ''location'', fact_value = ''Boston''\<rparr>],
      user_facts_id_seq = 2\<rparr>"
  let ?d' = "\<lparr>conversations = [], conversations_id_seq = 1,
      user_facts = [\<lparr>fact_id = 1, fact_session_id = ''s'', fact_key = ''location'', fact_value = ''Denver''\<rparr>],
      user_facts_id_seq = 2\<rparr>"
  have h1: "one_row_per_key ?d"
    by (simp add: one_row_per_key_def)
  have h2: "contains ''moved to'' (lower ''i live in Austin. I moved to Denver.'')"
    and h4: "contains ''i live in'' (lower ''i live in Austin. I moved to Denver.'')"
    by (simp_all add: lower_austin_denver)
  have l: "phrase_value ''i live in'' ''i live in Austin. I moved to Denver.'' = Inr ''Austin''"
    and v: "phrase_value ''moved to'' ''i live in Austin. I moved to Denver.'' = Inr ''Denver''"
    by (simp_all add: phrase_value_def last_item_def first_item_def strip_def isspace_def)
  have h3: "extract_and_store_facts ''s'' ''i live in Austin. I moved to Denver.'' ?d = (Inr (), ?d')"
    by (simp add: extract_and_store_facts_def lower_austin_denver l v seq_def skip_def store_fact_def
        upsert_user_fact_def has_nul_def)
  from moved_to_sets_location [OF h1 h2 h3] v h1 h2 h3 h4 show ?thesis
    by auto
qed

lemma lower_denver_name:
  "lower ''i live in Austin. i moved to Denver. my name is'' =
   ''i live in austin. i moved to denver. my name is''"
  "lower (''i live in Austin. I moved to Den'' @ [CHR 0x00] @ ''ver.'') =
   ''i live in austin. i moved to den'' @ [CHR 0x00] @ ''ver.''"
  by code_simp+

theorem moved_to_not_stored:
  "contains ''i live in'' (lower ''i live in Austin. i moved to Denver. my name is'') \<and>
   contains ''moved to'' (lower ''i live in Austin. i moved to Denver. my name is'') \<and>
   phrase_value ''moved to'' ''i live in Austin. i moved to Denver. my name is'' = Inr ''Denver'' \<and>
   extract_and_store_facts ''s'' ''i live in Austin. i moved to Denver. my name is''
     \<lparr>conversations = [], conversations_id_seq = 1,
      user_facts = [\<lparr>fact_id = 1, fact_session_id = ''s'', fact_key = ''location'', fact_value = ''Boston''\<rparr>],
      user_facts_id_seq = 2\<rparr> =
   (Inl IndexError,
     \<lparr>conversations = [], conversations_id_seq = 1,
      user_facts = [\<lparr>fact_id = 1, fact_session_id = ''s'', fact_key = ''location'', fact_value = ''Boston''\<rparr>],
      user_facts_id_seq = 2\<rparr>) \<and>
   contains ''i live in'' (lower (''i live in Austin. I moved to Den'' @ [CHR 0x00] @ ''ver.'')) \<and>
   contains ''moved to'' (lower (''i live in Austin. I moved to Den'' @ [CHR 0x00] @ ''ver.'')) \<and>
   phrase_value ''moved to'' (''i live in Austin. I moved to Den'' @ [CHR 0x00] @ ''ver.'') =
     Inr (''Den'' @ [CHR 0x00] @ ''ver'') \<and>
   extract_and_store_facts ''s'' (''i live in Austin. I moved to Den'' @ [CHR 0x00] @ ''ver.'')
     \<lparr>conversations = [], conversations_id_seq = 1,
      user_facts = [\<lparr>fact_id = 1, fact_session_id = ''s'', fact_key = ''location'', fact_value = ''Boston''\<rparr>],
      user_facts_id_seq = 2\<rparr> =
   (Inl ValueError,
     \<lparr>conversations = [], conversations_id_seq = 1,
      user_facts = [\<lparr>fact_id = 1, fact_session_id = ''s'', fact_key = ''location'', fact_value = ''Austin''\<rparr>],
      user_facts_id_seq = 2\<rparr>)"
proof -
  have n: "name_value ''i live in Austin. i moved to Denver. my name is'' = Inl IndexError"
    by (simp add: name_value_def last_item_def first_item_def strip_def split_whitespace_def)
  have v1: "phrase_value ''moved to'' ''i live in Austin. i moved to Denver. my name is'' = Inr ''Denver''"
    by (simp add: phrase_value_def last_item_def first_item_def strip_def isspace_def)
  have l2: "phrase_value ''i live in'' (''i live in Austin. I moved to Den'' @ [CHR 0x00] @ ''ver.'') =
      Inr ''Austin''"
    and v2: "phrase_value ''moved to'' (''i live in Austin. I moved to Den'' @ [CHR 0x00] @ ''ver.'') =
      Inr (''Den'' @ [CHR 0x00] @ ''ver'')"
    by (simp_all add: phrase_value_def last_item_def first_item_def strip_def isspace_def)
  have e1: "extract_and_store_facts ''s'' ''i live in Austin. i moved to Denver. my name is''
     \<lparr>conversations = [], conversations_id_seq = 1,
      user_facts = [\<lparr>fact_id = 1, fact_session_id = ''s'', fact_key = ''location'', fact_value = ''Boston''\<rparr>],
      user_facts_id_seq = 2\<rparr> =
   (Inl IndexError,
     \<lparr>conversations = [], conversations_id_seq = 1,
      user_facts = [\<lparr>fact_id = 1, fact_session_id = ''s'', fact_key = ''location'', fact_value = ''Boston''\<rparr>],
      user_facts_id_seq = 2\<rparr>)"
    by (simp add: extract_and_store_facts_def lower_denver_name(1) n seq_def store_fact_def)
  have e2: "extract_and_store_facts ''s'' (''i live in Austin. I moved to Den'' @ [CHR 0x00] @ ''ver.'')
     \<lparr>conversations = [], conversations_id_seq = 1,
      user_facts = [\<lparr>fact_id = 1, fact_session_id = ''s'', fact_key = ''location'', fact_value = ''Boston''\<rparr>],
      user_facts_id_seq = 2\<rparr> =
   (Inl ValueError,
     \<lparr>conversations = [], conversations_id_seq = 1,
      user_facts = [\<lparr>fact_id = 1, fact_session_id = ''s'', fact_key = ''location'', fact_value = ''Austin''\<rparr>],
      user_facts_id_seq = 2\<rparr>)"
    using l2 v2
    by (simp add: extract_and_store_facts_def lower_denver_name(2) [simplified] seq_def skip_def
        store_fact_def upsert_user_fact_def has_nul_def)
  have c1: "contains ''i live in'' (lower ''i live in Austin. i moved to Denver. my name is'')"
    "contains ''moved to'' (lower ''i live in Austin. i moved to Denver. my name is'')"
    by (simp_all add: lower_denver_name(1))
  have c2: "contains ''i live in'' (lower (''i live in Austin. I moved to Den'' @ [CHR 0x00] @ ''ver.''))"
    "contains ''moved to'' (lower (''i live in Austin. I moved to Den'' @ [CHR 0x00] @ ''ver.''))"
    using lower_denver_name(2) by simp_all
  from c1 v1 e1 c2 v2 e2 show ?thesis
    by (intro conjI)
qed

section \<open>The value of a phrase trigger\<close>

lemma last_split_on_phrase:
  assumes "phrase = ''my name is'' \<or> phrase = ''i am a'' \<or> phrase = ''i live in'' \<or> phrase = ''moved to''"
    and "after_last phrase user_input = Some post"
  shows "last (split_on phrase user_input) = post"
proof -
  from assms(1) have "unbordered phrase" "phrase \<noteq> []"
    by (auto simp: phrases_unbordered)
  then show ?thesis
    by (simp add: last_split_on assms(2))
qed

text \<open>
  C6, in the order in which the code trims and cuts, for a call that returns: when
  the phrase of the \<^verbatim>\<open>i am a\<close> trigger (likewise \<^verbatim>\<open>i live in\<close>, \<^verbatim>\<open>moved to\<close>) occurs in the
  original text as it is written, in lower case, and the extractor returns without
  raising, on a fact table with at most one row for each session and key and with
  distinct ids, the stored value is the text behind the last occurrence of the
  phrase, first trimmed of surrounding whitespace and then cut before its first
  period. For \<^verbatim>\<open>i live in\<close> this is the stored location when \<^verbatim>\<open>moved to\<close> does not match
  as well.
\<close>

theorem phrase_value_stored:
  assumes "phrase = ''i am a'' \<or> phrase = ''i live in'' \<or> phrase = ''moved to''"
    and "contains phrase user_input"
    and "one_row_per_key d" and "primary_key_ok d"
    and "extract_and_store_facts session_id user_input d = (Inr (), d')"
  shows "\<exists>post facts. after_last phrase user_input = Some post \<and>
           get_user_facts session_id d' = Inr facts \<and>
           (phrase = ''i am a'' \<longrightarrow>
              map_of facts ''profession'' = Some (takeWhile (\<lambda>c. c \<noteq> CHR ''.'') (strip post))) \<and>
           (phrase = ''moved to'' \<or>
            phrase = ''i live in'' \<and> \<not> contains ''moved to'' (lower user_input) \<longrightarrow>
              map_of facts ''location'' = Some (takeWhile (\<lambda>c. c \<noteq> CHR ''.'') (strip post)))"
proof -
  from assms(2) obtain post where post: "after_last phrase user_input = Some post"
    using after_last_None_iff [of phrase user_input] by auto
  with assms(1) have last: "last (split_on phrase user_input) = post"
    by (intro last_split_on_phrase) auto
  from assms(1) have "lower phrase = phrase"
    by (auto simp: phrases_lower)
  with assms(2) have fires: "contains phrase (lower user_input)"
    by (rule contains_lower)
  note stored = extract_stored(2-4) [OF assms(5,3,4)]
  from assms(1) fires stored have "\<not> has_nul session_id"
    by (cases "contains ''moved to'' (lower user_input)") auto
  then have "get_user_facts session_id d' = Inr (fact_dict session_id d')"
    by (rule get_user_facts_returns)
  with post last fires stored show ?thesis
    by (intro exI [of _ post] exI [of _ "fact_dict session_id d'"])
      (auto simp del: contains.simps split_on.simps)
qed

lemma lower_nurse_doctor:
  "lower ''Well, i am a nurse. No, i am a doctor, really. Bye'' =
   ''well, i am a nurse. no, i am a doctor, really. bye''"
  by code_simp

theorem phrase_value_stored_witness:
  "contains ''i am a'' ''Well, i am a nurse. No, i am a doctor, really. Bye'' \<and>
   one_row_per_key fresh_db \<and> primary_key_ok fresh_db \<and>
   extract_and_store_facts ''s'' ''Well, i am a nurse. No, i am a doctor, really. Bye'' fresh_db =
     (Inr (),
      \<lparr>conversations = [], conversations_id_seq = 1,
       user_facts =
         [\<lparr>fact_id = 1, fact_session_id = ''s'', fact_key = ''profession'', fact_value = ''doctor, really''\<rparr>],
       user_facts_id_seq = 2\<rparr>) \<and>
   after_last ''i am a'' ''Well, i am a nurse. No, i am a doctor, really. Bye'' =
     Some '' doctor, really. Bye'' \<and>
   (\<exists>facts. get_user_facts ''s''
        \<lparr>conversations = [], conversations_id_seq = 1,
         user_facts =
           [\<lparr>fact_id = 1, fact_session_id = ''s'', fact_key = ''profession'', fact_value = ''doctor, really''\<rparr>],
         user_facts_id_seq = 2\<rparr> = Inr facts \<and>
      map_of facts ''profession'' = Some ''doctor, really'')"
proof -
  let ?u = "''Well, i am a nurse. No, i am a doctor, really. Bye''"
  let ?d' = "\<lparr>conversations = [], conversations_id_seq = 1,
       user_facts =
         [\<lparr>fact_id = 1, fact_session_id = ''s'', fact_key = ''profession'', fact_value = ''doctor, really''\<rparr>],
       user_facts_id_seq = 2\<rparr>"
  have h2: "contains ''i am a'' ?u"
    by simp
  have h3: "one_row_per_key fresh_db" and h4: "primary_key_ok fresh_db"
    by (simp_all add: one_row_per_key_def primary_key_ok_def fresh_db_def)
  have p: "phrase_value ''i am a'' ?u = Inr ''doctor, really''"
    by (simp add: phrase_value_def last_item_def first_item_def strip_def isspace_def)
  have h5: "extract_and_store_facts ''s'' ?u fresh_db = (Inr (), ?d')"
    by (simp add: extract_and_store_facts_def lower_nurse_doctor p seq_def skip_def store_fact_def
        upsert_user_fact_def has_nul_def max_serial_def fresh_db_def)
  have a: "after_last ''i am a'' ?u = Some '' doctor, really. Bye''"
    by simp
  have v: "takeWhile (\<lambda>c. c \<noteq> CHR ''.'') (strip '' doctor, really. Bye'') = ''doctor, really''"
    by (simp add: strip_def isspace_def)
  from phrase_value_stored [of "''i am a''" ?u fresh_db "''s''" ?d', OF _ h2 h3 h4 h5] a v h2 h3 h4 h5
  show ?thesis
    by auto
qed

lemma lower_teacher:
  "lower ''i am a teacher .'' = ''i am a teacher .''"
  "lower ''i am a teacher. my name is'' = ''i am a teacher. my name is''"
  "lower (''i am a tea'' @ [CHR 0x00] @ ''cher'') = ''i am a tea'' @ [CHR 0x00] @ ''cher''"
  by code_simp+

theorem spec_phrase_value_differs:
  "contains ''i am a'' ''i am a teacher .'' \<and>
   spec_phrase_value ''i am a'' ''i am a teacher .'' = Some ''teacher'' \<and>
   extract_and_store_facts ''s'' ''i am a teacher .'' fresh_db =
     (Inr (),
      \<lparr>conversations = [], conversations_id_seq = 1,
       user_facts =
         [\<lparr>fact_id = 1, fact_session_id = ''s'', fact_key = ''profession'', fact_value = ''teacher ''\<rparr>],
       user_facts_id_seq = 2\<rparr>) \<and>
   get_user_facts ''s''
      \<lparr>conversations = [], conversations_id_seq = 1,
       user_facts =
         [\<lparr>fact_id = 1, fact_session_id = ''s'', fact_key = ''profession'', fact_value = ''teacher ''\<rparr>],
       user_facts_id_seq = 2\<rparr> = Inr [(''profession'', ''teacher '')] \<and>
   contains ''i am a'' ''i am a teacher. my name is'' \<and>
   spec_phrase_value ''i am a'' ''i am a teacher. my name is'' = Some ''teacher'' \<and>
   extract_and_store_facts ''s'' ''i am a teacher. my name is'' fresh_db = (Inl IndexError, fresh_db) \<and>
   contains ''i am a'' (''i am a tea'' @ [CHR 0x00] @ ''cher'') \<and>
   spec_phrase_value ''i am a'' (''i am a tea'' @ [CHR 0x00] @ ''cher'') =
     Some (''tea'' @ [CHR 0x00] @ ''cher'') \<and>
   extract_and_store_facts ''s'' (''i am a tea'' @ [CHR 0x00] @ ''cher'') fresh_db =
     (Inl ValueError, fresh_db) \<and>
   get_user_facts ''s'' fresh_db = Inr []"
proof -
  have s1: "spec_phrase_value ''i am a'' ''i am a teacher .'' = Some ''teacher''"
    and s2: "spec_phrase_value ''i am a'' ''i am a teacher. my name is'' = Some ''teacher''"
    and s3: "spec_phrase_value ''i am a'' (''i am a tea'' @ [CHR 0x00] @ ''cher'') =
      Some (''tea'' @ [CHR 0x00] @ ''cher'')"
    by (simp_all add: spec_phrase_value_def strip_def isspace_def)
  have v1: "phrase_value ''i am a'' ''i am a teacher .'' = Inr ''teacher ''"
    and v3: "phrase_value ''i am a'' (''i am a tea'' @ [CHR 0x00] @ ''cher'') =
      Inr (''tea'' @ [CHR 0x00] @ ''cher'')"
    by (simp_all add: phrase_value_def last_item_def first_item_def strip_def isspace_def)
  have n2: "name_value ''i am a teacher. my name is'' = Inl IndexError"
    by (simp add: name_value_def last_item_def first_item_def strip_def split_whitespace_def)
  have e1: "extract_and_store_facts ''s'' ''i am a teacher .'' fresh_db =
     (Inr (),
      \<lparr>conversations = [], conversations_id_seq = 1,
       user_facts =
         [\<lparr>fact_id = 1, fact_session_id = ''s'', fact_key = ''profession'', fact_value = ''teacher ''\<rparr>],
       user_facts_id_seq = 2\<rparr>)"
    by (simp add: extract_and_store_facts_def lower_teacher(1) v1 seq_def skip_def store_fact_def
        upsert_user_fact_def has_nul_def max_serial_def fresh_db_def)
  have g1: "get_user_facts ''s''
      \<lparr>conversations = [], conversations_id_seq = 1,
       user_facts =
         [\<lparr>fact_id = 1, fact_session_id = ''s'', fact_key = ''profession'', fact_value = ''teacher ''\<rparr>],
       user_facts_id_seq = 2\<rparr> = Inr [(''profession'', ''teacher '')]"
    by (simp add: get_user_facts_def fact_dict_def has_nul_def)
  have e2: "extract_and_store_facts ''s'' ''i am a teacher. my name is'' fresh_db =
      (Inl IndexError, fresh_db)"
    by (simp add: extract_and_store_facts_def lower_teacher(2) n2 seq_def store_fact_def)
  have e3: "extract_and_store_facts ''s'' (''i am a tea'' @ [CHR 0x00] @ ''cher'') fresh_db =
      (Inl ValueError, fresh_db)"
    using v3
    by (simp add: extract_and_store_facts_def lower_teacher(3) [simplified] seq_def skip_def
        store_fact_def upsert_user_fact_def has_nul_def)
  have g3: "get_user_facts ''s'' fresh_db = Inr []"
    by (simp add: get_user_facts_def fact_dict_def has_nul_def fresh_db_def)
  have c: "contains ''i am a'' ''i am a teacher .''"
    "contains ''i am a'' ''i am a teacher. my name is''"
    "contains ''i am a'' (''i am a tea'' @ [CHR 0x00] @ ''cher'')"
    by simp_all
  from c(1) s1 e1 g1 c(2) s2 e2 c(3) s3 e3 g3 show ?thesis
    by (intro conjI)
qed

section \<open>A phrase written in another case\<close>

text \<open>
  C10, for a call that returns: when a trigger phrase occurs in the lower-cased text
  but not, in lower case, in the original text, the split of the original text finds
  no occurrence and gives the whole utterance; when the extractor returns without
  raising, on a fact table with at most one row for each session and key and with
  distinct ids, the trigger has written its fact, and the value is derived from the
  whole utterance: its first token for the name, its trimmed text up to the first
  period for the other triggers (for \<^verbatim>\<open>i live in\<close>, when \<^verbatim>\<open>moved to\<close> does not match as
  well).
\<close>

theorem trigger_uses_whole_utterance:
  assumes "phrase = ''my name is'' \<or> phrase = ''i am a'' \<or> phrase = ''i live in'' \<or> phrase = ''moved to''"
    and "contains phrase (lower user_input)" and "\<not> contains phrase user_input"
    and "one_row_per_key d" and "primary_key_ok d"
    and "extract_and_store_facts session_id user_input d = (Inr (), d')"
  shows "split_on phrase user_input = [user_input] \<and>
         (\<exists>facts. get_user_facts session_id d' = Inr facts \<and>
           (phrase = ''my name is'' \<longrightarrow>
              (\<exists>name. first_item (split_whitespace (strip user_input)) = Inr name \<and>
                 map_of facts ''name'' = Some name)) \<and>
           (phrase = ''i am a'' \<longrightarrow>
              map_of facts ''profession'' = Some (takeWhile (\<lambda>c. c \<noteq> CHR ''.'') (strip user_input))) \<and>
           (phrase = ''moved to'' \<or>
            phrase = ''i live in'' \<and> \<not> contains ''moved to'' (lower user_input) \<longrightarrow>
              map_of facts ''location'' = Some (takeWhile (\<lambda>c. c \<noteq> CHR ''.'') (strip user_input))))"
proof -
  from assms(3) have whole: "split_on phrase user_input = [user_input]"
    by (rule split_on_no_occurrence)
  have name: "name_value user_input = first_item (split_whitespace (strip user_input))"
    if "phrase = ''my name is''"
    using that whole by (simp add: name_value_def last_item_def)
  note stored = extract_stored [OF assms(6,4,5)]
  from assms(1,2) stored have "\<not> has_nul session_id"
    by (cases "contains ''moved to'' (lower user_input)") auto
  then have "get_user_facts session_id d' = Inr (fact_dict session_id d')"
    by (rule get_user_facts_returns)
  with whole assms(2) name stored show ?thesis
    by (intro conjI exI [of _ "fact_dict session_id d'"])
      (auto simp del: contains.simps split_on.simps)
qed

lemma lower_doctor:
  "lower ''I am a doctor.'' = ''i am a doctor.''"
  "lower ''I am a doctor. my name is'' = ''i am a doctor. my name is''"
  "lower (''I am a doc'' @ [CHR 0x00] @ ''tor'') = ''i am a doc'' @ [CHR 0x00] @ ''tor''"
  by code_simp+

theorem trigger_uses_whole_utterance_witness:
  "contains ''i am a'' (lower ''I am a doctor.'') \<and> \<not> contains ''i am a'' ''I am a doctor.'' \<and>
   one_row_per_key fresh_db \<and> primary_key_ok fresh_db \<and>
   extract_and_store_facts ''s'' ''I am a doctor.'' fresh_db =
     (Inr (),
      \<lparr>conversations = [], conversations_id_seq = 1,
       user_facts =
         [\<lparr>fact_id = 1, fact_session_id = ''s'', fact_key = ''profession'', fact_value = ''I am a doctor''\<rparr>],
       user_facts_id_seq = 2\<rparr>) \<and>
   split_on ''i am a'' ''I am a doctor.'' = [''I am a doctor.''] \<and>
   (\<exists>facts. get_user_facts ''s''
        \<lparr>conversations = [], conversations_id_seq = 1,
         user_facts =
           [\<lparr>fact_id = 1, fact_session_id = ''s'', fact_key = ''profession'', fact_value = ''I am a doctor''\<rparr>],
         user_facts_id_seq = 2\<rparr> = Inr facts \<and>
      map_of facts ''profession'' = Some ''I am a doctor'')"
proof -
  let ?u = "''I am a doctor.''"
  let ?d' = "\<lparr>conversations = [], conversations_id_seq = 1,
       user_facts =
         [\<lparr>fact_id = 1, fact_session_id = ''s'', fact_key = ''profession'', fact_value = ''I am a doctor''\<rparr>],
       user_facts_id_seq = 2\<rparr>"
  have h2: "contains ''i am a'' (lower ?u)"
    by (simp add: lower_doctor(1))
  have h3: "\<not> contains ''i am a'' ?u"
    by simp
  have h4: "one_row_per_key fresh_db" and h5: "primary_key_ok fresh_db"
    by (simp_all add: one_row_per_key_def primary_key_ok_def fresh_db_def)
  have p: "phrase_value ''i am a'' ?u = Inr ''I am a doctor''"
    by (simp add: phrase_value_def last_item_def first_item_def strip_def isspace_def)
  have h6: "extract_and_store_facts ''s'' ?u fresh_db = (Inr (), ?d')"
    by (simp add: extract_and_store_facts_def lower_doctor(1) p seq_def skip_def store_fact_def
        upsert_user_fact_def has_nul_def max_serial_def fresh_db_def)
  have v: "takeWhile (\<lambda>c. c \<noteq> CHR ''.'') (strip ?u) = ''I am a doctor''"
    by (simp add: strip_def isspace_def)
  from trigger_uses_whole_utterance [of "''i am a''" ?u fresh_db "''s''" ?d', OF _ h2 h3 h4 h5 h6]
    v h2 h3 h4 h5 h6
  show ?thesis
    by auto
qed

theorem trigger_does_not_fire:
  "contains ''i am a'' (lower ''I am a doctor. my name is'') \<and>
   \<not> contains ''i am a'' ''I am a doctor. my name is'' \<and>
   extract_and_store_facts ''s'' ''I am a doctor. my name is'' fresh_db = (Inl IndexError, fresh_db) \<and>
   contains ''i am a'' (lower (''I am a doc'' @ [CHR 0x00] @ ''tor'')) \<and>
   \<not> contains ''i am a'' (''I am a doc'' @ [CHR 0x00] @ ''tor'') \<and>
   extract_and_store_facts ''s'' (''I am a doc'' @ [CHR 0x00] @ ''tor'') fresh_db =
     (Inl ValueError, fresh_db) \<and>
   get_user_facts ''s'' fresh_db = Inr []"
proof -
  have n: "name_value ''I am a doctor. my name is'' = Inl IndexError"
    by (simp add: name_value_def last_item_def first_item_def strip_def split_whitespace_def)
  have e1: "extract_and_store_facts ''s'' ''I am a doctor. my name is'' fresh_db =
      (Inl IndexError, fresh_db)"
    by (simp add: extract_and_store_facts_def lower_doctor(2) n seq_def store_fact_def)
  have v: "phrase_value ''i am a'' (''I am a doc'' @ [CHR 0x00] @ ''tor'') =
      Inr (''I am a doc'' @ [CHR 0x00] @ ''tor'')"
    by (simp add: phrase_value_def last_item_def first_item_def strip_def isspace_def)
  have e2: "extract_and_store_facts ''s'' (''I am a doc'' @ [CHR 0x00] @ ''tor'') fresh_db =
      (Inl ValueError, fresh_db)"
    using v
    by (simp add: extract_and_store_facts_def lower_doctor(3) [simplified] seq_def skip_def
        store_fact_def upsert_user_fact_def has_nul_def)
  have g: "get_user_facts ''s'' fresh_db = Inr []"
    by (simp add: get_user_facts_def fact_dict_def has_nul_def fresh_db_def)
  have c1: "contains ''i am a'' (lower ''I am a doctor. my name is'')"
    "\<not> contains ''i am a'' ''I am a doctor. my name is''"
    by (simp_all add: lower_doctor(2))
  have c2: "contains ''i am a'' (lower (''I am a doc'' @ [CHR 0x00] @ ''tor''))"
    "\<not> contains ''i am a'' (''I am a doc'' @ [CHR 0x00] @ ''tor'')"
    using lower_doctor(3) by simp_all
  from c1 e1 c2 e2 g show ?thesis
    by (intro conjI)
qed

section \<open>When the extractor returns\<close>

text \<open>
  The extractor returns when neither the session id nor the input holds a NUL
  character, the name trigger finds a token where it fires, and the sequence of the
  ids can give four more ids, each above the ids of the table.
\<close>

lemma set_split_on: "x \<in> set (split_on sep s) \<Longrightarrow> set x \<subseteq> set s"
proof (induction sep s arbitrary: x rule: split_on.induct)
  case (1 sep)
  then show ?case by simp
next
  case (2 sep c cs)
  show ?case
  proof (cases "sep \<noteq> [] \<and> prefix sep (c # cs)")
    case True
    with "2.prems" have "x = [] \<or> x \<in> set (split_on sep (drop (length sep - 1) cs))"
      by simp
    with "2.IH"(1) [OF True] have "set x \<subseteq> set (drop (length sep - 1) cs)"
      by auto
    also have "\<dots> \<subseteq> set (c # cs)"
      using set_drop_subset [of "length sep - 1" cs] by auto
    finally show ?thesis .
  next
    case False
    obtain p ps where split: "split_on sep cs = p # ps"
      using split_on_not_Nil [of sep cs] by (cases "split_on sep cs") auto
    with False "2.prems" have "x = c # p \<or> x \<in> set ps"
      by auto
    moreover have "set p \<subseteq> set cs"
      using "2.IH"(2) [OF False, of p] split by simp
    moreover have "set x \<subseteq> set cs" if "x \<in> set ps"
      using "2.IH"(2) [OF False, of x] split that by simp
    ultimately show ?thesis
      by auto
  qed
qed

lemma set_strip: "set (strip t) \<subseteq> set t"
  unfolding strip_def by (auto dest!: set_dropWhileD)

lemma set_split_runs: "x \<in> set (split_runs acc t) \<Longrightarrow> set x \<subseteq> set acc \<union> set t"
  by (induction acc t arbitrary: x rule: split_runs.induct) (auto split: if_splits)

lemma phrase_value_no_nul:
  assumes "\<not> has_nul u"
  shows "\<not> has_nul (takeWhile (\<lambda>c. c \<noteq> CHR ''.'') (strip (last (split_on p u))))"
proof -
  have "set (takeWhile (\<lambda>c. c \<noteq> CHR ''.'') (strip (last (split_on p u)))) \<subseteq>
      set (last (split_on p u))"
    using set_strip [of "last (split_on p u)"] by (auto dest: set_takeWhileD)
  also have "\<dots> \<subseteq> set u"
    by (rule set_split_on [of _ p]) (simp add: split_on_not_Nil)
  finally show ?thesis
    using assms by (auto simp: has_nul_def)
qed

lemma name_value_no_nul:
  assumes "\<not> has_nul u" and "name_value u = Inr x"
  shows "\<not> has_nul x"
proof -
  from assms(2) have "x \<in> set (split_whitespace (strip (last (split_on ''my name is'' u))))"
    by (auto simp: name_value_def last_item_def first_item_def split_on_not_Nil split: list.splits)
  then have "set x \<subseteq> set (strip (last (split_on ''my name is'' u)))"
    unfolding split_whitespace_def
    using set_split_runs [of x "[]" "strip (last (split_on ''my name is'' u))"] by simp
  also have "\<dots> \<subseteq> set (last (split_on ''my name is'' u))"
    by (rule set_strip)
  also have "\<dots> \<subseteq> set u"
    by (rule set_split_on [of _ "''my name is''"]) (simp add: split_on_not_Nil)
  finally show ?thesis
    using assms(1) by (auto simp: has_nul_def)
qed

lemma stage_returns:
  assumes "\<not> has_nul s" and "\<not> has_nul k"
    and "c \<Longrightarrow> \<exists>x. v = Inr x \<and> \<not> has_nul x"
    and "\<forall>r \<in> set (user_facts d). fact_id r < user_facts_id_seq d"
    and "user_facts_id_seq d \<le> max_serial"
  obtains d' where "(if c then store_fact s k v else skip) d = (Inr (), d')"
    and "\<forall>r \<in> set (user_facts d'). fact_id r < user_facts_id_seq d'"
    and "user_facts_id_seq d' \<le> Suc (user_facts_id_seq d)"
proof (cases c)
  case False
  with assms(4) show ?thesis
    by (intro that [of d]) (simp_all add: skip_def)
next
  case True
  with assms(3) obtain x where x: "v = Inr x" "\<not> has_nul x"
    by blast
  from assms(4) have fresh: "user_facts_id_seq d \<notin> set (map fact_id (user_facts d))"
    by auto
  with assms(1,2,5) x(2) obtain d' where up: "upsert_user_fact s k x d = (Inr (), d')"
    using upsert_returns_iff [of s k x d] by blast
  have "(\<forall>r \<in> set (user_facts d'). fact_id r < user_facts_id_seq d') \<and>
      user_facts_id_seq d' \<le> Suc (user_facts_id_seq d)"
  proof (cases "filter (\<lambda>r. fact_session_id r = s \<and> fact_key r = k) (user_facts d)")
    case Nil
    with up assms(1,2,4) x(2) show ?thesis
      by (auto simp: upsert_user_fact_def less_Suc_eq split: if_splits)
  next
    case (Cons e es)
    with up assms(1,2) x(2) have eq: "d' = d\<lparr>user_facts :=
        filter (\<lambda>r. fact_id r \<noteq> fact_id e) (user_facts d) @
        map (\<lambda>r. r\<lparr>fact_value := x\<rparr>)
          (filter (\<lambda>r. fact_id r = fact_id e) (user_facts d))\<rparr>"
      by (simp add: upsert_user_fact_def)
    from eq have seq: "user_facts_id_seq d' = user_facts_id_seq d"
      by simp
    have "fact_id r < user_facts_id_seq d'" if "r \<in> set (user_facts d')" for r
    proof -
      from that eq have "r \<in> set (user_facts d) \<or>
          (\<exists>r' \<in> set (user_facts d). r = r'\<lparr>fact_value := x\<rparr>)"
        by auto
      then obtain r' where "r' \<in> set (user_facts d)" "fact_id r' = fact_id r"
        by auto
      with assms(4) seq show ?thesis
        by auto
    qed
    with seq show ?thesis
      by simp
  qed
  with up True x(1) show ?thesis
    by (intro that [of d']) (simp_all add: store_fact_def)
qed

lemma extract_returns:
  assumes "\<not> has_nul s" and "\<not> has_nul u" and "name_returns u"
    and "\<forall>r \<in> set (user_facts d). fact_id r < user_facts_id_seq d"
    and "user_facts_id_seq d + 3 \<le> max_serial"
  shows "\<exists>d'. extract_and_store_facts s u d = (Inr (), d')"
proof -
  let ?name = "if contains ''my name is'' (lower u)
      then store_fact s ''name'' (name_value u) else skip"
  let ?profession = "if contains ''i am a'' (lower u)
      then store_fact s ''profession'' (phrase_value ''i am a'' u) else skip"
  let ?live = "if contains ''i live in'' (lower u)
      then store_fact s ''location'' (phrase_value ''i live in'' u) else skip"
  let ?moved = "if contains ''moved to'' (lower u)
      then store_fact s ''location'' (phrase_value ''moved to'' u) else skip"
  have keys: "\<not> has_nul ''name''" "\<not> has_nul ''profession''" "\<not> has_nul ''location''"
    by (simp_all add: has_nul_def)
  have name: "\<exists>x. name_value u = Inr x \<and> \<not> has_nul x" if "contains ''my name is'' (lower u)"
    using that assms(2,3) name_value_no_nul [of u]
    by (cases "name_value u") (auto simp: name_returns_def)
  have phrase: "\<exists>x. phrase_value p u = Inr x \<and> \<not> has_nul x" for p
    using phrase_value_no_nul [OF assms(2)] by (simp add: phrase_value_eq)
  from assms(5) have "user_facts_id_seq d \<le> max_serial"
    by simp
  with assms(1) keys(1) name assms(4) obtain d1 where s1: "?name d = (Inr (), d1)"
    and i1: "\<forall>r \<in> set (user_facts d1). fact_id r < user_facts_id_seq d1"
    and b1: "user_facts_id_seq d1 \<le> Suc (user_facts_id_seq d)"
    by (rule stage_returns)
  from b1 assms(5) have "user_facts_id_seq d1 \<le> max_serial"
    by simp
  with assms(1) keys(2) phrase i1 obtain d2 where s2: "?profession d1 = (Inr (), d2)"
    and i2: "\<forall>r \<in> set (user_facts d2). fact_id r < user_facts_id_seq d2"
    and b2: "user_facts_id_seq d2 \<le> Suc (user_facts_id_seq d1)"
    by (rule stage_returns)
  from b1 b2 assms(5) have "user_facts_id_seq d2 \<le> max_serial"
    by simp
  with assms(1) keys(3) phrase i2 obtain d3 where s3: "?live d2 = (Inr (), d3)"
    and i3: "\<forall>r \<in> set (user_facts d3). fact_id r < user_facts_id_seq d3"
    and b3: "user_facts_id_seq d3 \<le> Suc (user_facts_id_seq d2)"
    by (rule stage_returns)
  from b1 b2 b3 assms(5) have "user_facts_id_seq d3 \<le> max_serial"
    by simp
  with assms(1) keys(3) phrase i3 obtain d4 where s4: "?moved d3 = (Inr (), d4)"
    by (rule stage_returns)
  have "extract_and_store_facts s u d = seq ?name (seq ?profession (seq ?live ?moved)) d"
    by (simp add: extract_and_store_facts_def Let_def)
  also have "\<dots> = (Inr (), d4)"
    using s1 s2 s3 s4 by (simp add: seq_def)
  finally show ?thesis
    by blast
qed

end
